theory Spec2Isabelle
  imports Main "HOL-Library.AList"
begin

section \<open>Errors, feature types and numeric tables\<close>

text \<open>
  Every exception the modelled code can raise is a value. \<open>ValidationError\<close> and
  \<open>UninitializedAttributeError\<close> are the library's own classes (imported from
  \<open>job_shop_lib.exceptions\<close> by the observers); the others are Python's and numpy's.
  \<open>DanglingReference\<close> is no exception of Python: it is what the model returns when a
  stored position names no \<open>IsCompletedObserver\<close> among the subscribers, which no state
  built by the constructors below contains. \<open>FloatInfinity\<close> is no exception either: it
  stands for a write that stores an infinity in a float32 table. The code goes on after
  such a write; the tables of this model hold finite numbers only, so the model stops
  there, and a result \<open>Inr\<close> of a function that writes float32 cells says that every
  value it stored was finite.
\<close>

datatype error =
    ValidationError
  | UninitializedAttributeError
  | KeyError
  | IndexError
  | ValueError
  | UnboundLocalError
  | OverflowError
  | DanglingReference
  | FloatInfinity

text \<open>\<open>class FeatureType(str, enum.Enum)\<close>, in declaration order.\<close>

datatype FeatureType = OPERATIONS | MACHINES | JOBS

text \<open>\<open>list(FeatureType)\<close>: the default \<open>_supported_feature_types\<close>.\<close>

definition list_FeatureType :: "FeatureType list" where
  "list_FeatureType = [OPERATIONS, MACHINES, JOBS]"

text \<open>
  A table is a two-dimensional array: a list of rows, each row the list of its columns.
  The counters of \<open>IsCompletedObserver\<close> are arrays of integers. The feature tables are
  float32 arrays (\<open>np.zeros(..., dtype=np.float32)\<close>); every value the embedded code
  stores in them is an integer, so a cell is modelled by the integer the float32 cell
  holds. The code writes three kinds of values: the constant 1 and truth values, which
  float32 holds exactly and which are written as they are, and differences of times,
  which are rounded by \<open>float32_of_int\<close> below when they are written.
\<close>

type_synonym table = "int list list"

text \<open>\<open>np.zeros((n, k))\<close>.\<close>

definition zeros :: "nat \<Rightarrow> nat \<Rightarrow> table" where
  "zeros n k = replicate n (replicate k 0)"

text \<open>
  \<open>a[i, 0]\<close> for a non-negative \<open>i\<close>: IndexError when the row or column 0 does not exist.
\<close>

definition get0 :: "table \<Rightarrow> nat \<Rightarrow> error + int" where
  "get0 a i = (if i < length a \<and> a ! i \<noteq> [] then Inr (hd (a ! i)) else Inl IndexError)"

text \<open>\<open>a[i, 0] = v\<close>.\<close>

definition set0 :: "table \<Rightarrow> nat \<Rightarrow> int \<Rightarrow> error + table" where
  "set0 a i v =
     (if i < length a \<and> a ! i \<noteq> [] then Inr (a[i := v # tl (a ! i)]) else Inl IndexError)"

text \<open>
  Fancy indexing with a list of row indices. numpy checks every index before it
  writes, and an in-place \<open>a[idx, 0] += d\<close> is \<open>a[idx, 0] = a[idx, 0] + d\<close>: a row named
  twice in \<open>idx\<close> is changed once.
\<close>

definition rows_ok :: "table \<Rightarrow> nat list \<Rightarrow> bool" where
  "rows_ok a idx = list_all (\<lambda>i. i < length a \<and> a ! i \<noteq> []) idx"

definition add0_rows :: "table \<Rightarrow> nat list \<Rightarrow> int \<Rightarrow> error + table" where
  "add0_rows a idx d =
     (if rows_ok a idx
      then Inr (map (\<lambda>(i, row). if i \<in> set idx then (hd row + d) # tl row else row)
                  (enumerate 0 a))
      else Inl IndexError)"

text \<open>\<open>a[idx, 0] = f(a[idx, 0])\<close> where the new value of a row depends on a second table
  \<open>c\<close> read at the same rows (\<open>is_completed = c[idx, 0] == 0\<close>).\<close>

definition set0_rows_from :: "table \<Rightarrow> nat list \<Rightarrow> (nat \<Rightarrow> int) \<Rightarrow> error + table" where
  "set0_rows_from a idx f =
     (if rows_ok a idx
      then Inr (map (\<lambda>(i, row). if i \<in> set idx then f i # tl row else row) (enumerate 0 a))
      else Inl IndexError)"

text \<open>\<open>a[idx, 0] = v\<close> for one value \<open>v\<close>.\<close>

definition set0_rows :: "table \<Rightarrow> nat list \<Rightarrow> int \<Rightarrow> error + table" where
  "set0_rows a idx v = set0_rows_from a idx (\<lambda>_. v)"

text \<open>\<open>a[:, 0] = 0\<close>. Without a column 0 the index is out of bounds.\<close>

definition zero_col0 :: "table \<Rightarrow> error + table" where
  "zero_col0 a =
     (if list_all (\<lambda>row. row \<noteq> []) a then Inr (map (\<lambda>row. 0 # tl row) a)
      else Inl IndexError)"

text \<open>\<open>a[:] = 0.0\<close>.\<close>

definition zero_all :: "table \<Rightarrow> table" where
  "zero_all a = map (\<lambda>row. map (\<lambda>_. 0) row) a"

text \<open>Python's \<open>bool\<close> as a number, as numpy stores it in a numeric table.\<close>

definition of_bool_int :: "bool \<Rightarrow> int" where
  "of_bool_int b = (if b then 1 else 0)"

text \<open>
  The number of binary digits of a positive integer (Python's \<open>int.bit_length\<close>), and
  rounding of a non-negative integer to \<open>p\<close> significant binary digits, to the nearest
  such number and to the even one of two nearest.
\<close>

function bit_length :: "int \<Rightarrow> nat" where
  "bit_length n = (if n \<le> 0 then 0 else Suc (bit_length (n div 2)))"
  by pat_completeness auto
termination
  by (relation "measure nat") auto

declare bit_length.simps [simp del]

definition round_to_bits :: "nat \<Rightarrow> int \<Rightarrow> int" where
  "round_to_bits p a =
     (if bit_length a \<le> p then a
      else (let k = bit_length a - p; q = a div 2 ^ k; r = a mod 2 ^ k
            in (if 2 ^ (k - 1) < r \<or> (r = 2 ^ (k - 1) \<and> odd q) then q + 1 else q) * 2 ^ k))"

text \<open>
  The float32 cell that an assignment of a Python \<open>int\<close> stores. numpy converts the
  \<open>int\<close> to a C double first (53 significant digits; Python raises OverflowError when
  the result has no finite double) and the double to float32 (24 significant digits; a
  result of \<open>2 ^ 128\<close> or more is an infinity).
\<close>

definition float32_of_int :: "int \<Rightarrow> error + int" where
  "float32_of_int v =
     (let d = round_to_bits 53 \<bar>v\<bar> in
      if 1024 < bit_length d then Inl OverflowError
      else (let f = round_to_bits 24 d in
            if 128 < bit_length f then Inl FloatInfinity
            else Inr (sgn v * f)))"

text \<open>\<open>a[i, 0] = v\<close> on a float32 table, for a Python \<open>int\<close> \<open>v\<close>: numpy resolves the index
  before it converts the value.\<close>

definition set0_float32 :: "table \<Rightarrow> nat \<Rightarrow> int \<Rightarrow> error + table" where
  "set0_float32 a i v =
     (if i < length a \<and> a ! i \<noteq> [] then
        (case float32_of_int v of
           Inl e \<Rightarrow> Inl e
         | Inr w \<Rightarrow> Inr (a[i := w # tl (a ! i)]))
      else Inl IndexError)"

section \<open>Instance model\<close>

text \<open>
  Modelled from the spec: the classes \<open>Operation\<close>, \<open>ScheduledOperation\<close> and
  \<open>JobShopInstance\<close> are imported by the observers but their modules are not part of
  the sources. The fields are those the observers read (\<open>operation_id\<close>, \<open>job_id\<close>,
  \<open>machines\<close>) and those section 3 of the specification names.
\<close>

record Operation =
  operation_id :: nat
  job_id :: nat
  position_in_job :: nat
  machines :: "nat list"
  duration :: int

record ScheduledOperation =
  operation :: Operation
  start_time :: int
  machine_id :: nat

definition end_time :: "ScheduledOperation \<Rightarrow> int" where
  "end_time s = start_time s + duration (operation s)"

record JobShopInstance =
  jobs :: "Operation list list"

definition operations :: "JobShopInstance \<Rightarrow> Operation list" where
  "operations inst = concat (jobs inst)"

definition num_jobs :: "JobShopInstance \<Rightarrow> nat" where
  "num_jobs inst = length (jobs inst)"

definition num_operations :: "JobShopInstance \<Rightarrow> nat" where
  "num_operations inst = length (operations inst)"

text \<open>Machines have the dense ids \<open>0..M-1\<close> implied by the operations' eligible machines.\<close>

definition num_machines :: "JobShopInstance \<Rightarrow> nat" where
  "num_machines inst = fold (\<lambda>m acc. max (Suc m) acc) (concat (map machines (operations inst))) 0"

text \<open>
  Section 3 and 4.1 of the specification: ids are dense and assigned job-major,
  position-minor; every operation has at least one eligible machine and a non-negative
  duration.
\<close>

definition wf_instance :: "JobShopInstance \<Rightarrow> bool" where
  "wf_instance inst =
     (list_all (\<lambda>(j, job). list_all (\<lambda>(p, op). job_id op = j \<and> position_in_job op = p \<and>
                    machines op \<noteq> [] \<and> 0 \<le> duration op) (enumerate 0 job))
        (enumerate 0 (jobs inst))
      \<and> map operation_id (operations inst) = [0..<num_operations inst])"

section \<open>Feature observers: the base class\<close>

text \<open>
  The argument \<open>feature_types: list[FeatureType] | FeatureType | None\<close> of the
  constructors.
\<close>

datatype feature_types_arg = OneType FeatureType | NoneGiven | ManyTypes "FeatureType list"

text \<open>
  \<open>FeatureObserver._get_feature_types_list\<close>; \<open>supported\<close> is the class attribute
  \<open>_supported_feature_types\<close>. The loop raises at the first unsupported entry.
\<close>

definition get_feature_types_list ::
  "FeatureType list \<Rightarrow> feature_types_arg \<Rightarrow> error + FeatureType list" where
  "get_feature_types_list supported arg =
     (case arg of
        OneType ft \<Rightarrow> Inr [ft]
      | NoneGiven \<Rightarrow> Inr supported
      | ManyTypes fts \<Rightarrow>
          (if list_all (\<lambda>ft. ft \<in> set supported) fts then Inr fts else Inl ValidationError))"

text \<open>The class attribute \<open>_feature_size: dict[FeatureType, int] | int\<close>.\<close>

datatype feature_size_attr = SizeInt nat | SizeDict "(FeatureType \<times> nat) list"

text \<open>A dict comprehension: a later entry with a known key overwrites the value in place.\<close>

definition dict_of :: "('k \<times> 'v) list \<Rightarrow> ('k \<times> 'v) list" where
  "dict_of kvs = fold (\<lambda>(k, v) acc. AList.update k v acc) kvs []"

definition number_of_entities :: "JobShopInstance \<Rightarrow> FeatureType \<Rightarrow> nat" where
  "number_of_entities inst ft =
     (case ft of OPERATIONS \<Rightarrow> num_operations inst
               | MACHINES \<Rightarrow> num_machines inst
               | JOBS \<Rightarrow> num_jobs inst)"

text \<open>
  \<open>FeatureObserver.__init__\<close>, the part that builds \<open>feature_dimensions\<close>: the local
  \<open>feature_size\<close> is bound only when \<open>_feature_size\<close> is an \<open>int\<close>, and is read once per
  requested feature type.
\<close>

definition feature_dimensions ::
  "feature_size_attr \<Rightarrow> JobShopInstance \<Rightarrow> FeatureType list \<Rightarrow>
     error + (FeatureType \<times> nat \<times> nat) list" where
  "feature_dimensions fsize inst fts =
     (case fsize of
        SizeInt k \<Rightarrow> Inr (dict_of (map (\<lambda>ft. (ft, (number_of_entities inst ft, k))) fts))
      | SizeDict _ \<Rightarrow> (if fts = [] then Inr [] else Inl UnboundLocalError))"

text \<open>\<open>self.features\<close>: one \<open>np.zeros\<close> table per key of \<open>feature_dimensions\<close>.\<close>

definition new_features :: "(FeatureType \<times> nat \<times> nat) list \<Rightarrow> (FeatureType \<times> table) list" where
  "new_features dims = map (\<lambda>(ft, (n, k)). (ft, zeros n k)) dims"

text \<open>
  The tables \<open>FeatureObserver.__init__\<close> creates for a constructor argument, before
  \<open>initialize_features\<close> runs.
\<close>

definition FeatureObserver_tables ::
  "FeatureType list \<Rightarrow> feature_size_attr \<Rightarrow> JobShopInstance \<Rightarrow> feature_types_arg \<Rightarrow>
     error + (FeatureType \<times> table) list" where
  "FeatureObserver_tables supported fsize inst arg =
     (case get_feature_types_list supported arg of
        Inl e \<Rightarrow> Inl e
      | Inr fts \<Rightarrow>
          (case feature_dimensions fsize inst fts of
             Inl e \<Rightarrow> Inl e
           | Inr dims \<Rightarrow> Inr (new_features dims)))"

record FeatureObserver =
  features :: "(FeatureType \<times> table) list"

text \<open>\<open>ft in self.features\<close> and \<open>self.features[ft]\<close>.\<close>

definition has_feature :: "(FeatureType \<times> table) list \<Rightarrow> FeatureType \<Rightarrow> bool" where
  "has_feature fs ft = (map_of fs ft \<noteq> None)"

definition feature :: "(FeatureType \<times> table) list \<Rightarrow> FeatureType \<Rightarrow> error + table" where
  "feature fs ft = (case map_of fs ft of None \<Rightarrow> Inl KeyError | Some a \<Rightarrow> Inr a)"

text \<open>\<open>FeatureObserver.set_features_to_zero\<close>.\<close>

definition set_features_to_zero ::
  "FeatureType list \<Rightarrow> (FeatureType \<times> table) list \<Rightarrow> (FeatureType \<times> table) list" where
  "set_features_to_zero exclude fs =
     map (\<lambda>(ft, a). if ft \<in> set exclude then (ft, a) else (ft, zero_all a)) fs"

record IsCompletedObserver = FeatureObserver +
  remaining_ops_per_machine :: table
  remaining_ops_per_job :: table

section \<open>The graph of the residual updater\<close>

text \<open>
  Modelled from the spec: the class \<open>JobShopGraph\<close> is not part of the sources. Section 9
  of the specification describes an arena of nodes addressed by a stable index with a
  parallel "removed" flag per node; a node stands for an operation, a machine or a job.
  The updater uses \<open>nodes_by_type\<close>, \<open>get_machine_node\<close>, \<open>get_job_node\<close>, \<open>is_removed\<close> and
  \<open>remove_node\<close>. The field \<open>redundant_removals\<close> is ghost state: it counts the calls of
  \<open>remove_node\<close> on a node that is already removed, and no operation reads it.
\<close>

datatype NodeType = OPERATION | MACHINE | JOB

record Node =
  node_type :: NodeType
  entity_id :: nat

record JobShopGraph =
  nodes :: "Node list"
  removed_nodes :: "bool list"
  edges :: "(nat \<times> nat) list"
  redundant_removals :: nat

definition nodes_by_type :: "JobShopGraph \<Rightarrow> NodeType \<Rightarrow> nat list" where
  "nodes_by_type g t = filter (\<lambda>i. node_type (nodes g ! i) = t) [0..<length (nodes g)]"

text \<open>The id of the node that stands for entity \<open>e\<close> of type \<open>t\<close>; an error when there is none.\<close>

definition get_node :: "JobShopGraph \<Rightarrow> NodeType \<Rightarrow> nat \<Rightarrow> error + nat" where
  "get_node g t e =
     (case filter (\<lambda>i. entity_id (nodes g ! i) = e) (nodes_by_type g t) of
        [] \<Rightarrow> Inl ValidationError
      | i # _ \<Rightarrow> Inr i)"

definition get_machine_node :: "JobShopGraph \<Rightarrow> nat \<Rightarrow> error + nat" where
  "get_machine_node g m = get_node g MACHINE m"

definition get_job_node :: "JobShopGraph \<Rightarrow> nat \<Rightarrow> error + nat" where
  "get_job_node g j = get_node g JOB j"

definition get_operation_node :: "JobShopGraph \<Rightarrow> nat \<Rightarrow> error + nat" where
  "get_operation_node g i = get_node g OPERATION i"

definition is_removed :: "JobShopGraph \<Rightarrow> nat \<Rightarrow> bool" where
  "is_removed g n = (n < length (removed_nodes g) \<and> removed_nodes g ! n)"

definition remove_node :: "JobShopGraph \<Rightarrow> nat \<Rightarrow> JobShopGraph" where
  "remove_node g n =
     g\<lparr>removed_nodes := (removed_nodes g)[n := True],
        edges := filter (\<lambda>(a, b). a \<noteq> n \<and> b \<noteq> n) (edges g),
        redundant_removals := (if is_removed g n then Suc (redundant_removals g)
                               else redundant_removals g)\<rparr>"

text \<open>
  \<open>_is_completed_observer\<close> is a reference to an observer object that is also held by the
  dispatcher; it is modelled by the position of that object in \<open>dispatcher.subscribers\<close>.
\<close>

record ResidualGraphUpdater =
  is_completed_observer_attr :: "nat option"
  remove_completed_machine_nodes :: bool
  remove_completed_job_nodes :: bool
  job_shop_graph :: JobShopGraph

section \<open>The dispatcher\<close>

text \<open>
  The observers of the sources: \<open>IsCompletedObserver\<close>, \<open>EarliestStartTimeObserver\<close>, the
  base class \<open>FeatureObserver\<close> itself and \<open>ResidualGraphUpdater\<close>; and
  \<open>RemainingOperationsObserver\<close>, which \<open>IsCompletedObserver\<close> looks for.
\<close>

datatype feature_observer =
    IsCompletedObs IsCompletedObserver
  | EarliestStartTimeObs FeatureObserver
  | RemainingOperationsObs FeatureObserver
  | PlainFeatureObs FeatureObserver

datatype observer =
    FeatureObs feature_observer
  | GraphUpd ResidualGraphUpdater

text \<open>
  Modelled from the spec: the class \<open>Dispatcher\<close> (the dispatching engine of section 4.3)
  is not part of the sources. Its state is the schedule (one sequence per machine), the
  two next-available-time indices, the set of unscheduled operations in ascending id
  order, the most recently committed operation, and the subscribed observers in
  subscription order.
\<close>

record Dispatcher =
  instance_d :: JobShopInstance
  schedule :: "ScheduledOperation list list"
  machine_next_available_time :: "int list"
  job_next_available_time :: "int list"
  unscheduled :: "Operation list"
  last_committed :: "ScheduledOperation option"
  subscribers :: "observer list"

text \<open>Sequencing of fallible steps: a \<open>for\<close> loop whose body may raise, and a comprehension.\<close>

fun foldE :: "('a \<Rightarrow> 's \<Rightarrow> error + 's) \<Rightarrow> 'a list \<Rightarrow> 's \<Rightarrow> error + 's" where
  "foldE f [] s = Inr s"
| "foldE f (x # xs) s = (case f x s of Inl e \<Rightarrow> Inl e | Inr s' \<Rightarrow> foldE f xs s')"

fun mapE :: "('a \<Rightarrow> error + 'b) \<Rightarrow> 'a list \<Rightarrow> error + 'b list" where
  "mapE f [] = Inr []"
| "mapE f (x # xs) =
     (case f x of Inl e \<Rightarrow> Inl e
      | Inr y \<Rightarrow> (case mapE f xs of Inl e \<Rightarrow> Inl e | Inr ys \<Rightarrow> Inr (y # ys)))"

text \<open>\<open>xs[i]\<close> for a non-negative \<open>i\<close>.\<close>

definition nth_err :: "'a list \<Rightarrow> nat \<Rightarrow> error + 'a" where
  "nth_err xs i = (if i < length xs then Inr (xs ! i) else Inl IndexError)"

text \<open>\<open>a[i, 0] += d\<close>.\<close>

definition add0 :: "table \<Rightarrow> nat \<Rightarrow> int \<Rightarrow> error + table" where
  "add0 a i d = (case get0 a i of Inl e \<Rightarrow> Inl e | Inr v \<Rightarrow> set0 a i (v + d))"

subsection \<open>Queries\<close>

text \<open>
  Modelled from the spec: the queries of the \<open>Dispatcher\<close> that the observers and \<open>commit\<close>
  call (sections 3, 4.2 and 4.3). Times are Python integers.
\<close>

definition unscheduled_operations :: "Dispatcher \<Rightarrow> Operation list" where
  "unscheduled_operations d = unscheduled d"

definition scheduled_operations :: "Dispatcher \<Rightarrow> ScheduledOperation list" where
  "scheduled_operations d = concat (schedule d)"

text \<open>
  \<open>current_time()\<close>: the start of the most recently committed operation, or 0 when
  nothing has been committed.
\<close>

definition current_time :: "Dispatcher \<Rightarrow> int" where
  "current_time d = (case last_committed d of None \<Rightarrow> 0 | Some s \<Rightarrow> start_time s)"

text \<open>
  \<open>completed_operations()\<close>. The specification names it beside \<open>scheduled_operations()\<close>
  as a sequence over the engine's state and says no more; it is taken here as the
  committed operations that have ended by \<open>current_time()\<close>. No theorem below depends on
  which committed operations it returns.
\<close>

definition completed_operations :: "Dispatcher \<Rightarrow> Operation list" where
  "completed_operations d =
     map operation (filter (\<lambda>s. end_time s \<le> current_time d) (scheduled_operations d))"

text \<open>
  Modelled from the spec (section 4.3): \<open>earliest_start_time(operation)\<close>, and with a
  machine chosen by the caller. In both cases the result is the larger of the job's next
  available time and a machine time: the minimum over the eligible machines, or the
  entry of the chosen machine. Python's \<open>min\<close> of no value raises ValueError.
\<close>

definition earliest_start_time :: "Dispatcher \<Rightarrow> Operation \<Rightarrow> nat option \<Rightarrow> error + int" where
  "earliest_start_time d op sel =
     (case nth_err (job_next_available_time d) (job_id op) of
        Inl e \<Rightarrow> Inl e
      | Inr jt \<Rightarrow>
          (case sel of
             Some m \<Rightarrow>
               (case nth_err (machine_next_available_time d) m of
                  Inl e \<Rightarrow> Inl e
                | Inr mt \<Rightarrow> Inr (max jt mt))
           | None \<Rightarrow>
               (case mapE (nth_err (machine_next_available_time d)) (machines op) of
                  Inl e \<Rightarrow> Inl e
                | Inr [] \<Rightarrow> Inl ValueError
                | Inr (t # ts) \<Rightarrow> Inr (max jt (fold min ts t)))))"

text \<open>
  \<open>Schedule.add\<close> (section 4.2): appends to the machine's sequence, and fails when the
  start lies before the previous end on that machine or before the end of the
  job-predecessor.
\<close>

definition Schedule_add ::
  "ScheduledOperation list list \<Rightarrow> ScheduledOperation \<Rightarrow> error + ScheduledOperation list list" where
  "Schedule_add sch s =
     (if length sch \<le> machine_id s then Inl IndexError
      else if sch ! machine_id s \<noteq> [] \<and> start_time s < end_time (last (sch ! machine_id s))
        then Inl ValidationError
      else if list_ex (\<lambda>p. job_id (operation p) = job_id (operation s) \<and>
                  Suc (position_in_job (operation p)) = position_in_job (operation s) \<and>
                  start_time s < end_time p) (concat sch)
        then Inl ValidationError
      else Inr (sch[machine_id s := sch ! machine_id s @ [s]]))"

section \<open>IsCompletedObserver\<close>

text \<open>
  \<open>IsCompletedObserver._get_remaining_operations_observer\<close>: the first subscribed
  \<open>RemainingOperationsObserver\<close> whose tables cover the given feature types.
\<close>

fun get_remaining_operations_observer ::
  "observer list \<Rightarrow> FeatureType list \<Rightarrow> FeatureObserver option" where
  "get_remaining_operations_observer [] fts = None"
| "get_remaining_operations_observer (FeatureObs (RemainingOperationsObs r) # rest) fts =
     (if list_all (has_feature (features r)) fts then Some r
      else get_remaining_operations_observer rest fts)"
| "get_remaining_operations_observer (_ # rest) fts =
     get_remaining_operations_observer rest fts"

text \<open>
  The body of the counting loop of \<open>initialize_features\<close>; the state is the pair
  (\<open>remaining_ops_per_machine\<close>, \<open>remaining_ops_per_job\<close>).
\<close>

definition count_operation ::
  "(FeatureType \<times> table) list \<Rightarrow> Operation \<Rightarrow> table \<times> table \<Rightarrow> error + table \<times> table" where
  "count_operation fs op c =
     (case (if has_feature fs JOBS then add0 (snd c) (job_id op) 1 else Inr (snd c)) of
        Inl e \<Rightarrow> Inl e
      | Inr pj \<Rightarrow>
          (case (if has_feature fs MACHINES then add0_rows (fst c) (machines op) 1
                 else Inr (fst c)) of
             Inl e \<Rightarrow> Inl e
           | Inr pm \<Rightarrow> Inr (pm, pj)))"

text \<open>The second half of \<open>initialize_features\<close>: the observer counts for itself.\<close>

definition count_remaining_operations ::
  "Dispatcher \<Rightarrow> IsCompletedObserver \<Rightarrow> error + IsCompletedObserver" where
  "count_remaining_operations d ob =
     (case zero_col0 (remaining_ops_per_machine ob) of
        Inl e \<Rightarrow> Inl e
      | Inr pm0 \<Rightarrow>
          (case zero_col0 (remaining_ops_per_job ob) of
             Inl e \<Rightarrow> Inl e
           | Inr pj0 \<Rightarrow>
               (case foldE (count_operation (features ob)) (unscheduled_operations d) (pm0, pj0) of
                  Inl e \<Rightarrow> Inl e
                | Inr c \<Rightarrow>
                    Inr (ob\<lparr>remaining_ops_per_machine := fst c, remaining_ops_per_job := snd c\<rparr>))))"

text \<open>
  The first half: the tables of a \<open>RemainingOperationsObserver\<close> are copied. The counters
  are float32 arrays from then on, holding the numbers copied; float32 subtracts 1
  exactly from a count below \<open>2 ^ 24\<close>, and the counters of this model are the numbers.
\<close>

definition copy_remaining_operations ::
  "FeatureObserver \<Rightarrow> IsCompletedObserver \<Rightarrow> error + IsCompletedObserver" where
  "copy_remaining_operations r ob =
     (case (if has_feature (features ob) JOBS then feature (features r) JOBS
            else Inr (remaining_ops_per_job ob)) of
        Inl e \<Rightarrow> Inl e
      | Inr pj \<Rightarrow>
          (case (if has_feature (features ob) MACHINES then feature (features r) MACHINES
                 else Inr (remaining_ops_per_machine ob)) of
             Inl e \<Rightarrow> Inl e
           | Inr pm \<Rightarrow>
               Inr (ob\<lparr>remaining_ops_per_machine := pm, remaining_ops_per_job := pj\<rparr>)))"

text \<open>\<open>IsCompletedObserver.initialize_features\<close>.\<close>

definition IsCompletedObserver_initialize_features ::
  "Dispatcher \<Rightarrow> IsCompletedObserver \<Rightarrow> error + IsCompletedObserver" where
  "IsCompletedObserver_initialize_features d ob =
     (case get_remaining_operations_observer (subscribers d) (map fst (features ob)) of
        Some r \<Rightarrow> copy_remaining_operations r ob
      | None \<Rightarrow> count_remaining_operations d ob)"

text \<open>\<open>IsCompletedObserver.update\<close>, one definition per \<open>if\<close> block.\<close>

definition update_operations_block ::
  "Dispatcher \<Rightarrow> IsCompletedObserver \<Rightarrow> error + IsCompletedObserver" where
  "update_operations_block d ob =
     (if has_feature (features ob) OPERATIONS then
        (case feature (features ob) OPERATIONS of
           Inl e \<Rightarrow> Inl e
         | Inr a \<Rightarrow>
             (case set0_rows a (map operation_id (completed_operations d)) 1 of
                Inl e \<Rightarrow> Inl e
              | Inr a' \<Rightarrow> Inr (ob\<lparr>features := AList.update OPERATIONS a' (features ob)\<rparr>)))
      else Inr ob)"

definition update_machines_block ::
  "ScheduledOperation \<Rightarrow> IsCompletedObserver \<Rightarrow> error + IsCompletedObserver" where
  "update_machines_block sop ob =
     (if has_feature (features ob) MACHINES then
        (case add0_rows (remaining_ops_per_machine ob) (machines (operation sop)) (- 1) of
           Inl e \<Rightarrow> Inl e
         | Inr pm \<Rightarrow>
             (case feature (features ob) MACHINES of
                Inl e \<Rightarrow> Inl e
              | Inr a \<Rightarrow>
                  (case set0_rows_from a (machines (operation sop))
                          (\<lambda>m. of_bool_int (hd (pm ! m) = 0)) of
                     Inl e \<Rightarrow> Inl e
                   | Inr a' \<Rightarrow>
                       Inr (ob\<lparr>features := AList.update MACHINES a' (features ob),
                               remaining_ops_per_machine := pm\<rparr>))))
      else Inr ob)"

definition update_jobs_block ::
  "ScheduledOperation \<Rightarrow> IsCompletedObserver \<Rightarrow> error + IsCompletedObserver" where
  "update_jobs_block sop ob =
     (if has_feature (features ob) JOBS then
        (case add0 (remaining_ops_per_job ob) (job_id (operation sop)) (- 1) of
           Inl e \<Rightarrow> Inl e
         | Inr pj \<Rightarrow>
             (case get0 pj (job_id (operation sop)) of
                Inl e \<Rightarrow> Inl e
              | Inr v \<Rightarrow>
                  (case feature (features ob) JOBS of
                     Inl e \<Rightarrow> Inl e
                   | Inr a \<Rightarrow>
                       (case set0 a (job_id (operation sop)) (of_bool_int (v = 0)) of
                          Inl e \<Rightarrow> Inl e
                        | Inr a' \<Rightarrow>
                            Inr (ob\<lparr>features := AList.update JOBS a' (features ob),
                                    remaining_ops_per_job := pj\<rparr>)))))
      else Inr ob)"

definition IsCompletedObserver_update ::
  "Dispatcher \<Rightarrow> IsCompletedObserver \<Rightarrow> ScheduledOperation \<Rightarrow> error + IsCompletedObserver" where
  "IsCompletedObserver_update d ob sop =
     (case update_operations_block d ob of
        Inl e \<Rightarrow> Inl e
      | Inr ob1 \<Rightarrow>
          (case update_machines_block sop ob1 of
             Inl e \<Rightarrow> Inl e
           | Inr ob2 \<Rightarrow> update_jobs_block sop ob2))"

section \<open>EarliestStartTimeObserver\<close>

text \<open>
  \<open>EarliestStartTimeObserver._update_operation_features\<close>: the loop body and the loop. The
  value assigned is a difference of two times, a Python \<open>int\<close>, and the cell is float32.
\<close>

definition update_operation_feature ::
  "Dispatcher \<Rightarrow> Operation \<Rightarrow> (FeatureType \<times> table) list \<Rightarrow>
     error + (FeatureType \<times> table) list" where
  "update_operation_feature d op fs =
     (case earliest_start_time d op None of
        Inl e \<Rightarrow> Inl e
      | Inr start \<Rightarrow>
          (case feature fs OPERATIONS of
             Inl e \<Rightarrow> Inl e
           | Inr a \<Rightarrow>
               (case set0_float32 a (operation_id op) (start - current_time d) of
                  Inl e \<Rightarrow> Inl e
                | Inr a' \<Rightarrow> Inr (AList.update OPERATIONS a' fs))))"

definition update_operation_features ::
  "Dispatcher \<Rightarrow> (FeatureType \<times> table) list \<Rightarrow> error + (FeatureType \<times> table) list" where
  "update_operation_features d fs =
     foldE (update_operation_feature d) (unscheduled_operations d) fs"

text \<open>
  \<open>_update_machine_features\<close> and \<open>_update_job_features\<close>: one row per entry of a
  next-available-time index.
\<close>

definition update_time_feature ::
  "Dispatcher \<Rightarrow> FeatureType \<Rightarrow> nat \<times> int \<Rightarrow> (FeatureType \<times> table) list \<Rightarrow>
     error + (FeatureType \<times> table) list" where
  "update_time_feature d ft kv fs =
     (case feature fs ft of
        Inl e \<Rightarrow> Inl e
      | Inr a \<Rightarrow>
          (case set0_float32 a (fst kv) (snd kv - current_time d) of
             Inl e \<Rightarrow> Inl e
           | Inr a' \<Rightarrow> Inr (AList.update ft a' fs)))"

definition update_machine_features ::
  "Dispatcher \<Rightarrow> (FeatureType \<times> table) list \<Rightarrow> error + (FeatureType \<times> table) list" where
  "update_machine_features d fs =
     foldE (update_time_feature d MACHINES) (enumerate 0 (machine_next_available_time d)) fs"

definition update_job_features ::
  "Dispatcher \<Rightarrow> (FeatureType \<times> table) list \<Rightarrow> error + (FeatureType \<times> table) list" where
  "update_job_features d fs =
     foldE (update_time_feature d JOBS) (enumerate 0 (job_next_available_time d)) fs"

text \<open>\<open>EarliestStartTimeObserver.initialize_features\<close>.\<close>

definition EarliestStartTimeObserver_initialize_features ::
  "Dispatcher \<Rightarrow> FeatureObserver \<Rightarrow> error + FeatureObserver" where
  "EarliestStartTimeObserver_initialize_features d ob =
     (case update_operation_features d (features ob) of
        Inl e \<Rightarrow> Inl e
      | Inr fs1 \<Rightarrow>
          (case update_machine_features d fs1 of
             Inl e \<Rightarrow> Inl e
           | Inr fs2 \<Rightarrow>
               (case update_job_features d fs2 of
                  Inl e \<Rightarrow> Inl e
                | Inr fs3 \<Rightarrow> Inr (ob\<lparr>features := fs3\<rparr>))))"

section \<open>RemainingOperationsObserver\<close>

text \<open>
  Modelled from the spec: the class \<open>RemainingOperationsObserver\<close> is imported by
  \<open>IsCompletedObserver\<close> but is not part of the sources. Section 4.4: its tables hold
  the number of remaining operations per machine and per job, kept by decrementing on
  each commit, and equal to the count of a full scan. Its tables are float32 arrays as
  those of every feature observer; a count is below \<open>2 ^ 24\<close> in every instance with fewer
  operations than that, and float32 adds and subtracts 1 exactly there.
\<close>

definition RemainingOperationsObserver_initialize_features ::
  "Dispatcher \<Rightarrow> FeatureObserver \<Rightarrow> error + FeatureObserver" where
  "RemainingOperationsObserver_initialize_features d ob =
     (case foldE (\<lambda>op fs.
              (case (if has_feature fs JOBS then
                       (case feature fs JOBS of Inl e \<Rightarrow> Inl e
                        | Inr a \<Rightarrow> (case add0 a (job_id op) 1 of Inl e \<Rightarrow> Inl e
                                    | Inr a' \<Rightarrow> Inr (AList.update JOBS a' fs)))
                     else Inr fs) of
                 Inl e \<Rightarrow> Inl e
               | Inr fs1 \<Rightarrow>
                   (if has_feature fs1 MACHINES then
                      (case feature fs1 MACHINES of Inl e \<Rightarrow> Inl e
                       | Inr a \<Rightarrow> (case add0_rows a (machines op) 1 of Inl e \<Rightarrow> Inl e
                                   | Inr a' \<Rightarrow> Inr (AList.update MACHINES a' fs1)))
                    else Inr fs1)))
            (unscheduled_operations d) (set_features_to_zero [] (features ob)) of
        Inl e \<Rightarrow> Inl e
      | Inr fs \<Rightarrow> Inr (ob\<lparr>features := fs\<rparr>))"

definition RemainingOperationsObserver_update ::
  "FeatureObserver \<Rightarrow> ScheduledOperation \<Rightarrow> error + FeatureObserver" where
  "RemainingOperationsObserver_update ob sop =
     (case (if has_feature (features ob) JOBS then
              (case feature (features ob) JOBS of Inl e \<Rightarrow> Inl e
               | Inr a \<Rightarrow> (case add0 a (job_id (operation sop)) (- 1) of Inl e \<Rightarrow> Inl e
                           | Inr a' \<Rightarrow> Inr (AList.update JOBS a' (features ob))))
            else Inr (features ob)) of
        Inl e \<Rightarrow> Inl e
      | Inr fs1 \<Rightarrow>
          (case (if has_feature fs1 MACHINES then
                   (case feature fs1 MACHINES of Inl e \<Rightarrow> Inl e
                    | Inr a \<Rightarrow> (case add0_rows a (machines (operation sop)) (- 1) of
                                  Inl e \<Rightarrow> Inl e
                                | Inr a' \<Rightarrow> Inr (AList.update MACHINES a' fs1)))
                 else Inr fs1) of
             Inl e \<Rightarrow> Inl e
           | Inr fs2 \<Rightarrow> Inr (ob\<lparr>features := fs2\<rparr>)))"

section \<open>Dynamic dispatch of the feature observers' methods\<close>

text \<open>
  \<open>initialize_features\<close> by class: the base class does nothing.
\<close>

fun initialize_features :: "Dispatcher \<Rightarrow> feature_observer \<Rightarrow> error + feature_observer" where
  "initialize_features d (IsCompletedObs ob) =
     map_sum id IsCompletedObs (IsCompletedObserver_initialize_features d ob)"
| "initialize_features d (EarliestStartTimeObs ob) =
     map_sum id EarliestStartTimeObs (EarliestStartTimeObserver_initialize_features d ob)"
| "initialize_features d (RemainingOperationsObs ob) =
     map_sum id RemainingOperationsObs (RemainingOperationsObserver_initialize_features d ob)"
| "initialize_features d (PlainFeatureObs ob) = Inr (PlainFeatureObs ob)"

text \<open>\<open>FeatureObserver.update\<close>, the inherited method: it calls \<open>initialize_features\<close>.\<close>

definition FeatureObserver_update ::
  "Dispatcher \<Rightarrow> feature_observer \<Rightarrow> ScheduledOperation \<Rightarrow> error + feature_observer" where
  "FeatureObserver_update d ob sop = initialize_features d ob"

text \<open>Which classes define an \<open>update\<close> of their own.\<close>

fun overrides_update :: "feature_observer \<Rightarrow> bool" where
  "overrides_update (IsCompletedObs ob) = True"
| "overrides_update (RemainingOperationsObs ob) = True"
| "overrides_update (EarliestStartTimeObs ob) = False"
| "overrides_update (PlainFeatureObs ob) = False"

text \<open>\<open>observer.update(scheduled_operation)\<close> on a feature observer, by class.\<close>

fun update :: "Dispatcher \<Rightarrow> feature_observer \<Rightarrow> ScheduledOperation \<Rightarrow> error + feature_observer" where
  "update d (IsCompletedObs ob) sop =
     map_sum id IsCompletedObs (IsCompletedObserver_update d ob sop)"
| "update d (RemainingOperationsObs ob) sop =
     map_sum id RemainingOperationsObs (RemainingOperationsObserver_update ob sop)"
| "update d (EarliestStartTimeObs ob) sop =
     FeatureObserver_update d (EarliestStartTimeObs ob) sop"
| "update d (PlainFeatureObs ob) sop =
     FeatureObserver_update d (PlainFeatureObs ob) sop"

section \<open>ResidualGraphUpdater\<close>

text \<open>The property \<open>is_completed_observer\<close>; it returns the stored reference.\<close>

definition is_completed_observer :: "ResidualGraphUpdater \<Rightarrow> error + nat" where
  "is_completed_observer u =
     (case is_completed_observer_attr u of
        None \<Rightarrow> Inl UninitializedAttributeError
      | Some r \<Rightarrow> Inr r)"

text \<open>The \<open>IsCompletedObserver\<close> object a reference names.\<close>

definition deref :: "Dispatcher \<Rightarrow> nat \<Rightarrow> error + IsCompletedObserver" where
  "deref d r =
     (if r < length (subscribers d) then
        (case subscribers d ! r of
           FeatureObs (IsCompletedObs ob) \<Rightarrow> Inr ob
         | _ \<Rightarrow> Inl DanglingReference)
      else Inl DanglingReference)"

text \<open>
  Modelled from the spec: the helper \<open>remove_completed_operations\<close> is imported from
  \<open>job_shop_lib.graphs.graph_updaters\<close> but is not part of the sources. Section 4.5: it
  removes the nodes of the completed operations, and removing a removed node is a
  no-op behind an "is removed" query.
\<close>

definition remove_operation_step :: "Operation \<Rightarrow> JobShopGraph \<Rightarrow> error + JobShopGraph" where
  "remove_operation_step op g =
     (case get_operation_node g (operation_id op) of
        Inl e \<Rightarrow> Inl e
      | Inr n \<Rightarrow> Inr (if \<not> is_removed g n then remove_node g n else g))"

definition remove_completed_operations ::
  "JobShopGraph \<Rightarrow> Operation list \<Rightarrow> error + JobShopGraph" where
  "remove_completed_operations g completed = foldE remove_operation_step completed g"

text \<open>
  The body of the loop of \<open>_remove_completed_machine_nodes\<close>: the node is looked up only
  when \<open>is_completed == 1\<close>.
\<close>

definition remove_machine_step :: "nat \<times> int \<Rightarrow> JobShopGraph \<Rightarrow> error + JobShopGraph" where
  "remove_machine_step mc g =
     (if snd mc = 1 then
        (case get_machine_node g (fst mc) of
           Inl e \<Rightarrow> Inl e
         | Inr n \<Rightarrow> Inr (if \<not> is_removed g n then remove_node g n else g))
      else Inr g)"

text \<open>\<open>_remove_completed_machine_nodes\<close>; \<open>flatten()\<close> is \<open>concat\<close>.\<close>

definition remove_completed_machine_nodes_loop ::
  "Dispatcher \<Rightarrow> ResidualGraphUpdater \<Rightarrow> JobShopGraph \<Rightarrow> error + JobShopGraph" where
  "remove_completed_machine_nodes_loop d u g =
     (case is_completed_observer u of
        Inl e \<Rightarrow> Inl e
      | Inr r \<Rightarrow>
          (case deref d r of
             Inl e \<Rightarrow> Inl e
           | Inr ob \<Rightarrow>
               (case feature (features ob) MACHINES of
                  Inl e \<Rightarrow> Inl e
                | Inr a \<Rightarrow> foldE remove_machine_step (enumerate 0 (concat a)) g)))"

text \<open>
  The loop of \<open>_remove_completed_job_nodes\<close> runs over the rows of the table without
  \<open>flatten()\<close>: \<open>is_completed == 1\<close> compares a row, and its truth value is defined for a
  row of one cell.
\<close>

definition row_equals_1 :: "int list \<Rightarrow> error + bool" where
  "row_equals_1 row = (case row of [x] \<Rightarrow> Inr (x = 1) | _ \<Rightarrow> Inl ValueError)"

definition remove_job_step :: "nat \<times> int list \<Rightarrow> JobShopGraph \<Rightarrow> error + JobShopGraph" where
  "remove_job_step jc g =
     (case row_equals_1 (snd jc) of
        Inl e \<Rightarrow> Inl e
      | Inr c \<Rightarrow>
          (if c then
             (case get_job_node g (fst jc) of
                Inl e \<Rightarrow> Inl e
              | Inr n \<Rightarrow> Inr (if \<not> is_removed g n then remove_node g n else g))
           else Inr g))"

definition remove_completed_job_nodes_loop ::
  "Dispatcher \<Rightarrow> ResidualGraphUpdater \<Rightarrow> JobShopGraph \<Rightarrow> error + JobShopGraph" where
  "remove_completed_job_nodes_loop d u g =
     (case is_completed_observer u of
        Inl e \<Rightarrow> Inl e
      | Inr r \<Rightarrow>
          (case deref d r of
             Inl e \<Rightarrow> Inl e
           | Inr ob \<Rightarrow>
               (case feature (features ob) JOBS of
                  Inl e \<Rightarrow> Inl e
                | Inr a \<Rightarrow> foldE remove_job_step (enumerate 0 a) g)))"

text \<open>\<open>ResidualGraphUpdater.update\<close>, as a function of the graph.\<close>

definition update_job_shop_graph ::
  "Dispatcher \<Rightarrow> ResidualGraphUpdater \<Rightarrow> JobShopGraph \<Rightarrow> error + JobShopGraph" where
  "update_job_shop_graph d u g =
     (case remove_completed_operations g (completed_operations d) of
        Inl e \<Rightarrow> Inl e
      | Inr g1 \<Rightarrow>
          (case (if remove_completed_machine_nodes u \<and> nodes_by_type g1 MACHINE \<noteq> []
                 then remove_completed_machine_nodes_loop d u g1 else Inr g1) of
             Inl e \<Rightarrow> Inl e
           | Inr g2 \<Rightarrow>
               (if remove_completed_job_nodes u \<and> nodes_by_type g2 JOB \<noteq> []
                then remove_completed_job_nodes_loop d u g2 else Inr g2)))"

definition ResidualGraphUpdater_update ::
  "Dispatcher \<Rightarrow> ResidualGraphUpdater \<Rightarrow> ScheduledOperation \<Rightarrow> error + ResidualGraphUpdater" where
  "ResidualGraphUpdater_update d u sop =
     (case update_job_shop_graph d u (job_shop_graph u) of
        Inl e \<Rightarrow> Inl e
      | Inr g \<Rightarrow> Inr (u\<lparr>job_shop_graph := g\<rparr>))"

section \<open>Commit and notification\<close>

text \<open>\<open>observer.update(scheduled_operation)\<close> for any subscriber.\<close>

fun observer_update :: "Dispatcher \<Rightarrow> observer \<Rightarrow> ScheduledOperation \<Rightarrow> error + observer" where
  "observer_update d (FeatureObs ob) sop = map_sum id FeatureObs (update d ob sop)"
| "observer_update d (GraphUpd u) sop = map_sum id GraphUpd (ResidualGraphUpdater_update d u sop)"

text \<open>
  Modelled from the spec (section 4.3, \<open>commit\<close>): the observers are notified in
  subscription order, each seeing the dispatcher as the commit and the earlier observers
  left it. \<open>notify_from k i\<close> notifies the \<open>k\<close> observers from position \<open>i\<close> on. An
  exception of an observer ends the loop; the state returned with it is the state
  before that observer's update began.
\<close>

fun notify_from ::
  "nat \<Rightarrow> nat \<Rightarrow> ScheduledOperation \<Rightarrow> Dispatcher \<Rightarrow> error option \<times> Dispatcher" where
  "notify_from 0 i sop d = (None, d)"
| "notify_from (Suc k) i sop d =
     (case observer_update d (subscribers d ! i) sop of
        Inl e \<Rightarrow> (Some e, d)
      | Inr ob \<Rightarrow> notify_from k (Suc i) sop (d\<lparr>subscribers := (subscribers d)[i := ob]\<rparr>))"

definition notify :: "ScheduledOperation \<Rightarrow> Dispatcher \<Rightarrow> error option \<times> Dispatcher" where
  "notify sop d = notify_from (length (subscribers d)) 0 sop d"

text \<open>"Already scheduled": the operation is in the schedule.\<close>

definition is_scheduled :: "Dispatcher \<Rightarrow> Operation \<Rightarrow> bool" where
  "is_scheduled d op = (op \<in> set (map operation (scheduled_operations d)))"

text \<open>
  The state transition of a successful commit, before the observers are notified:
  the schedule is extended, both indices are set to the end of the operation, the
  operation leaves the unscheduled set.
\<close>

definition apply_commit :: "Dispatcher \<Rightarrow> ScheduledOperation \<Rightarrow> error + Dispatcher" where
  "apply_commit d s =
     (case Schedule_add (schedule d) s of
        Inl e \<Rightarrow> Inl e
      | Inr sch \<Rightarrow>
          (if length (machine_next_available_time d) \<le> machine_id s
              \<or> length (job_next_available_time d) \<le> job_id (operation s)
           then Inl IndexError
           else Inr (d\<lparr>schedule := sch,
                       machine_next_available_time :=
                         (machine_next_available_time d)[machine_id s := end_time s],
                       job_next_available_time :=
                         (job_next_available_time d)[job_id (operation s) := end_time s],
                       unscheduled := removeAll (operation s) (unscheduled d),
                       last_committed := Some s\<rparr>)))"

text \<open>
  Modelled from the spec: \<open>commit(operation, machine, start_time)\<close> of section 4.3. The
  result pairs the exception raised, if any, with the state the call leaves.
\<close>

definition commit ::
  "Dispatcher \<Rightarrow> Operation \<Rightarrow> nat \<Rightarrow> int \<Rightarrow> error option \<times> Dispatcher" where
  "commit d op m t =
     (if m \<notin> set (machines op) then (Some ValidationError, d)
      else if is_scheduled d op then (Some ValidationError, d)
      else
        (case earliest_start_time d op (Some m) of
           Inl e \<Rightarrow> (Some e, d)
         | Inr est \<Rightarrow>
             (if t < est then (Some ValidationError, d)
              else
                (case apply_commit d \<lparr>operation = op, start_time = t, machine_id = m\<rparr> of
                   Inl e \<Rightarrow> (Some e, d)
                 | Inr d' \<Rightarrow> notify \<lparr>operation = op, start_time = t, machine_id = m\<rparr> d'))))"

section \<open>Construction\<close>

text \<open>
  Modelled from the spec: engine construction (section 3). All derived state starts from
  the empty schedule, and nothing is subscribed.
\<close>

definition Dispatcher_init :: "JobShopInstance \<Rightarrow> Dispatcher" where
  "Dispatcher_init inst =
     \<lparr>instance_d = inst,
      schedule = replicate (num_machines inst) [],
      machine_next_available_time = replicate (num_machines inst) 0,
      job_next_available_time = replicate (num_jobs inst) 0,
      unscheduled = operations inst,
      last_committed = None,
      subscribers = []\<rparr>"

text \<open>
  \<open>IsCompletedObserver.__init__\<close>. The class keeps the defaults
  \<open>_supported_feature_types = list(FeatureType)\<close> and \<open>_feature_size = 1\<close>, and feature
  observers are not singletons, so subscribing appends the new object to
  \<open>dispatcher.subscribers\<close>; this happens in the base constructor before the tables are
  created and \<open>initialize_features\<close> runs. The result is the dispatcher and the finished
  object; a construction that raises returns the exception only.
\<close>

definition IsCompletedObserver_init ::
  "Dispatcher \<Rightarrow> feature_types_arg \<Rightarrow> bool \<Rightarrow> error + Dispatcher \<times> IsCompletedObserver" where
  "IsCompletedObserver_init d arg subscribe =
     (case get_feature_types_list list_FeatureType arg of
        Inl e \<Rightarrow> Inl e
      | Inr fts \<Rightarrow>
          (case FeatureObserver_tables list_FeatureType (SizeInt 1) (instance_d d) (ManyTypes fts) of
             Inl e \<Rightarrow> Inl e
           | Inr fs \<Rightarrow>
               (let ob0 = \<lparr>features = fs,
                           remaining_ops_per_machine = zeros (num_machines (instance_d d)) 1,
                           remaining_ops_per_job = zeros (num_jobs (instance_d d)) 1\<rparr>;
                    d1 = (if subscribe
                          then d\<lparr>subscribers := subscribers d @ [FeatureObs (IsCompletedObs ob0)]\<rparr>
                          else d)
                in (case IsCompletedObserver_initialize_features d1 ob0 of
                      Inl e \<Rightarrow> Inl e
                    | Inr ob \<Rightarrow>
                        Inr (if subscribe
                             then d\<lparr>subscribers := subscribers d @ [FeatureObs (IsCompletedObs ob)]\<rparr>
                             else d, ob)))))"

text \<open>The closure \<open>has_all_features\<close> of \<open>_initialize_is_completed_observer_attribute\<close>.\<close>

fun has_all_features :: "FeatureType list \<Rightarrow> observer \<Rightarrow> bool" where
  "has_all_features fts (FeatureObs (IsCompletedObs ob)) = list_all (has_feature (features ob)) fts"
| "has_all_features fts _ = False"

text \<open>The position of the first subscriber from position \<open>i\<close> on that satisfies a condition.\<close>

fun first_position :: "(observer \<Rightarrow> bool) \<Rightarrow> observer list \<Rightarrow> nat \<Rightarrow> nat option" where
  "first_position c [] i = None"
| "first_position c (ob # rest) i = (if c ob then Some i else first_position c rest (Suc i))"

text \<open>
  Modelled from the spec: the helper \<open>create_or_get_observer\<close> is imported from
  \<open>job_shop_lib.dispatching\<close> but is not part of the sources. Sections 4.4 and 4.5: it
  locates an already-subscribed observer of the given class that satisfies the
  condition, and creates (and subscribes) one with the given feature types if none
  exists. Here the class is \<open>IsCompletedObserver\<close>, the only one it is called with.
\<close>

definition create_or_get_observer ::
  "Dispatcher \<Rightarrow> (observer \<Rightarrow> bool) \<Rightarrow> FeatureType list \<Rightarrow> error + Dispatcher \<times> nat" where
  "create_or_get_observer d condition fts =
     (case first_position condition (subscribers d) 0 of
        Some r \<Rightarrow> Inr (d, r)
      | None \<Rightarrow>
          (case IsCompletedObserver_init d (ManyTypes fts) True of
             Inl e \<Rightarrow> Inl e
           | Inr (d', ob) \<Rightarrow> Inr (d', length (subscribers d))))"

text \<open>
  \<open>ResidualGraphUpdater._initialize_is_completed_observer_attribute\<close>: the new value of
  \<open>_is_completed_observer\<close>, which is \<open>None\<close> before the call.
\<close>

definition initialize_is_completed_observer_attribute ::
  "Dispatcher \<Rightarrow> bool \<Rightarrow> bool \<Rightarrow> error + Dispatcher \<times> nat option" where
  "initialize_is_completed_observer_attribute d remove_machines remove_jobs =
     (let feature_types = (if remove_machines then [MACHINES] else [])
                          @ (if remove_jobs then [JOBS] else [])
      in if feature_types \<noteq> [] then
           (case create_or_get_observer d (has_all_features feature_types) feature_types of
              Inl e \<Rightarrow> Inl e
            | Inr (d', r) \<Rightarrow> Inr (d', Some r))
         else Inr (d, None))"

fun is_graph_updater :: "observer \<Rightarrow> bool" where
  "is_graph_updater (GraphUpd u) = True"
| "is_graph_updater _ = False"

text \<open>
  \<open>ResidualGraphUpdater.__init__\<close>. The base constructor \<open>GraphUpdater.__init__\<close> is not part
  of the sources; by section 4.3 it subscribes the updater when asked to, and a
  singleton cannot be subscribed next to another object of its class.
\<close>

definition ResidualGraphUpdater_init ::
  "Dispatcher \<Rightarrow> JobShopGraph \<Rightarrow> bool \<Rightarrow> bool \<Rightarrow> bool \<Rightarrow> bool \<Rightarrow>
     error + Dispatcher \<times> ResidualGraphUpdater" where
  "ResidualGraphUpdater_init d g singleton subscribe remove_machines remove_jobs =
     (case initialize_is_completed_observer_attribute d remove_machines remove_jobs of
        Inl e \<Rightarrow> Inl e
      | Inr (d1, attr) \<Rightarrow>
          (let u = \<lparr>is_completed_observer_attr = attr,
                    remove_completed_machine_nodes = remove_machines,
                    remove_completed_job_nodes = remove_jobs,
                    job_shop_graph = g\<rparr>
           in if subscribe then
                (if singleton \<and> list_ex is_graph_updater (subscribers d1)
                 then Inl ValidationError
                 else Inr (d1\<lparr>subscribers := subscribers d1 @ [GraphUpd u]\<rparr>, u))
              else Inr (d1, u)))"

section \<open>Well-formed states, commit sequences and full scans\<close>

text \<open>
  The states the engine can be in (section 3): the indices have one entry per machine
  and per job, the unscheduled operations are the operations of the instance that are not
  in the schedule, each once, and no committed operation ends after the next available
  time of its machine or of its job.
\<close>

definition wf_dispatcher :: "Dispatcher \<Rightarrow> bool" where
  "wf_dispatcher d =
     (wf_instance (instance_d d)
      \<and> length (schedule d) = num_machines (instance_d d)
      \<and> length (machine_next_available_time d) = num_machines (instance_d d)
      \<and> length (job_next_available_time d) = num_jobs (instance_d d)
      \<and> distinct (unscheduled d)
      \<and> list_all (\<lambda>op. op \<in> set (operations (instance_d d)) \<and> \<not> is_scheduled d op) (unscheduled d)
      \<and> list_all (\<lambda>op. op \<in> set (unscheduled d) \<or> is_scheduled d op) (operations (instance_d d))
      \<and> list_all (\<lambda>(m, row). list_all (\<lambda>s. machine_id s = m
              \<and> end_time s \<le> machine_next_available_time d ! m
              \<and> job_id (operation s) < length (job_next_available_time d)
              \<and> end_time s \<le> job_next_available_time d ! job_id (operation s)) row)
           (enumerate 0 (schedule d)))"

text \<open>A sequence of commits; it stops at the first one that raises.\<close>

fun commits :: "Dispatcher \<Rightarrow> (Operation \<times> nat \<times> int) list \<Rightarrow> error option \<times> Dispatcher" where
  "commits d [] = (None, d)"
| "commits d (c # cs) =
     (case commit d (fst c) (fst (snd c)) (snd (snd c)) of
        (None, d') \<Rightarrow> commits d' cs
      | (Some e, d') \<Rightarrow> (Some e, d'))"

text \<open>
  The count of a full scan, in the words of section 4.4: the number of unscheduled
  operations that can run on machine \<open>m\<close>, and the number that belong to job \<open>j\<close>.
\<close>

definition scan_machine :: "Operation list \<Rightarrow> nat \<Rightarrow> int" where
  "scan_machine ops m = int (length (filter (\<lambda>op. m \<in> set (machines op)) ops))"

definition scan_job :: "Operation list \<Rightarrow> nat \<Rightarrow> int" where
  "scan_job ops j = int (length (filter (\<lambda>op. job_id op = j) ops))"

text \<open>The same counts as tables of one column, one row per machine and per job.\<close>

definition scan_table_machines :: "Dispatcher \<Rightarrow> table" where
  "scan_table_machines d =
     map (\<lambda>m. [scan_machine (unscheduled_operations d) m]) [0..<num_machines (instance_d d)]"

definition scan_table_jobs :: "Dispatcher \<Rightarrow> table" where
  "scan_table_jobs d =
     map (\<lambda>j. [scan_job (unscheduled_operations d) j]) [0..<num_jobs (instance_d d)]"

text \<open>
  The counters of an \<open>IsCompletedObserver\<close> agree with the full scan of a dispatcher,
  for the feature types the observer tracks.
\<close>

definition counts_scan :: "Dispatcher \<Rightarrow> IsCompletedObserver \<Rightarrow> bool" where
  "counts_scan d ob =
     ((has_feature (features ob) MACHINES \<longrightarrow>
         remaining_ops_per_machine ob = scan_table_machines d)
      \<and> (has_feature (features ob) JOBS \<longrightarrow>
         remaining_ops_per_job ob = scan_table_jobs d))"

text \<open>
  The machine and job tables of an \<open>IsCompletedObserver\<close> as \<open>__init__\<close> and \<open>reset\<close> leave
  them: all zero.
\<close>

definition unmarked :: "JobShopInstance \<Rightarrow> IsCompletedObserver \<Rightarrow> bool" where
  "unmarked inst ob =
     ((has_feature (features ob) MACHINES \<longrightarrow>
         feature (features ob) MACHINES = Inr (zeros (num_machines inst) 1))
      \<and> (has_feature (features ob) JOBS \<longrightarrow>
         feature (features ob) JOBS = Inr (zeros (num_jobs inst) 1)))"

text \<open>
  The machine and job tables of an observer that was unmarked in state \<open>d0\<close>, in a later
  state \<open>d\<close>: a row holds 1 when the entity had a remaining operation in \<open>d0\<close> and has none
  in \<open>d\<close>, and 0 otherwise.
\<close>

definition completion_marks :: "Dispatcher \<Rightarrow> Dispatcher \<Rightarrow> IsCompletedObserver \<Rightarrow> bool" where
  "completion_marks d0 d ob =
     ((has_feature (features ob) MACHINES \<longrightarrow>
         feature (features ob) MACHINES =
           Inr (map (\<lambda>m. [of_bool_int (scan_machine (unscheduled_operations d) m = 0
                                      \<and> 0 < scan_machine (unscheduled_operations d0) m)])
                  [0..<num_machines (instance_d d)]))
      \<and> (has_feature (features ob) JOBS \<longrightarrow>
         feature (features ob) JOBS =
           Inr (map (\<lambda>j. [of_bool_int (scan_job (unscheduled_operations d) j = 0
                                      \<and> 0 < scan_job (unscheduled_operations d0) j)])
                  [0..<num_jobs (instance_d d)])))"

text \<open>
  Table \<open>a'\<close> is table \<open>a\<close> with \<open>f i\<close> added to column 0 of every row \<open>i\<close>.
\<close>

definition shifted :: "table \<Rightarrow> table \<Rightarrow> (nat \<Rightarrow> int) \<Rightarrow> bool" where
  "shifted a a' f =
     (length a' = length a \<and>
      (\<forall>i<length a. hd (a' ! i) = hd (a ! i) + f i \<and> tl (a' ! i) = tl (a ! i)
          \<and> (a' ! i = [] \<longleftrightarrow> a ! i = [])))"


text \<open>\<open>features[ft][i, 0]\<close> as a read.\<close>

definition cell :: "(FeatureType \<times> table) list \<Rightarrow> FeatureType \<Rightarrow> nat \<Rightarrow> error + int" where
  "cell fs ft i = (case feature fs ft of Inl e \<Rightarrow> Inl e | Inr a \<Rightarrow> get0 a i)"


text \<open>
  The arena invariant of section 9: one "removed" flag per node. And the order on graphs
  that removals generate: graph \<open>g'\<close> has the nodes of \<open>g\<close> and every node removed in
  \<open>g\<close> is removed in \<open>g'\<close>.
\<close>

definition wf_graph :: "JobShopGraph \<Rightarrow> bool" where
  "wf_graph g = (length (removed_nodes g) = length (nodes g))"

definition graph_extends :: "JobShopGraph \<Rightarrow> JobShopGraph \<Rightarrow> bool" where
  "graph_extends g g' =
     (nodes g' = nodes g \<and> length (removed_nodes g') = length (removed_nodes g)
      \<and> (\<forall>n. is_removed g n \<longrightarrow> is_removed g' n))"







section \<open>A concrete instance\<close>

text \<open>
  The scenario of section 8 of the specification: two jobs on two machines,
  job 0 = [(machine 0, 3), (machine 1, 2)] and job 1 = [(machine 1, 4), (machine 0, 1)],
  and a graph with one node per operation, machine and job.
\<close>

definition op00 :: Operation where
  "op00 = \<lparr>operation_id = 0, job_id = 0, position_in_job = 0, machines = [0], duration = 3\<rparr>"

definition op01 :: Operation where
  "op01 = \<lparr>operation_id = 1, job_id = 0, position_in_job = 1, machines = [1], duration = 2\<rparr>"

definition op10 :: Operation where
  "op10 = \<lparr>operation_id = 2, job_id = 1, position_in_job = 0, machines = [1], duration = 4\<rparr>"

definition op11 :: Operation where
  "op11 = \<lparr>operation_id = 3, job_id = 1, position_in_job = 1, machines = [0], duration = 1\<rparr>"

definition example_instance :: JobShopInstance where
  "example_instance = \<lparr>jobs = [[op00, op01], [op10, op11]]\<rparr>"

definition example_graph :: JobShopGraph where
  "example_graph =
     \<lparr>nodes = [\<lparr>node_type = OPERATION, entity_id = 0\<rparr>, \<lparr>node_type = OPERATION, entity_id = 1\<rparr>,
               \<lparr>node_type = OPERATION, entity_id = 2\<rparr>, \<lparr>node_type = OPERATION, entity_id = 3\<rparr>,
               \<lparr>node_type = MACHINE, entity_id = 0\<rparr>, \<lparr>node_type = MACHINE, entity_id = 1\<rparr>,
               \<lparr>node_type = JOB, entity_id = 0\<rparr>, \<lparr>node_type = JOB, entity_id = 1\<rparr>],
      removed_nodes = replicate 8 False,
      edges = [(0, 1), (2, 3), (0, 4), (3, 4), (1, 5), (2, 5), (0, 6), (1, 6), (2, 7), (3, 7)],
      redundant_removals = 0\<rparr>"

definition example_dispatcher :: Dispatcher where
  "example_dispatcher = Dispatcher_init example_instance"

text \<open>The state after job 0's first operation is committed at time 0 on machine 0.\<close>

definition example_after_op00 :: Dispatcher where
  "example_after_op00 = snd (commit example_dispatcher op00 0 0)"

definition example_earliest_observer :: feature_observer where
  "example_earliest_observer =
     EarliestStartTimeObs
       \<lparr>features = [(OPERATIONS, zeros 4 1), (MACHINES, zeros 2 1), (JOBS, zeros 2 1)]\<rparr>"

text \<open>
  A flexible instance: the only operation of job 0 can run on machine 0 or machine 1, the
  only operation of job 1 on machine 1.
\<close>

definition flex_op0 :: Operation where
  "flex_op0 = \<lparr>operation_id = 0, job_id = 0, position_in_job = 0, machines = [0, 1], duration = 2\<rparr>"

definition flex_op1 :: Operation where
  "flex_op1 = \<lparr>operation_id = 1, job_id = 1, position_in_job = 0, machines = [1], duration = 1\<rparr>"

definition flex_instance :: JobShopInstance where
  "flex_instance = \<lparr>jobs = [[flex_op0], [flex_op1]]\<rparr>"

definition flex_dispatcher :: Dispatcher where
  "flex_dispatcher = Dispatcher_init flex_instance"

text \<open>An \<open>IsCompletedObserver\<close> of all feature types as its constructor leaves it there.\<close>

definition flex_observer :: IsCompletedObserver where
  "flex_observer =
     \<lparr>features = [(OPERATIONS, [[0], [0]]), (MACHINES, [[0], [0]]), (JOBS, [[0], [0]])],
      remaining_ops_per_machine = [[1], [2]],
      remaining_ops_per_job = [[1], [1]]\<rparr>"

text \<open>Job 0's operation is committed at time 0 on machine 0.\<close>

definition flex_after :: Dispatcher where
  "flex_after = snd (commit flex_dispatcher flex_op0 0 0)"

text \<open>
  The scenario with an \<open>IsCompletedObserver\<close> of all feature types subscribed before the
  first commit, and the four commits of section 8.
\<close>

definition example_observed :: Dispatcher where
  "example_observed =
     (case IsCompletedObserver_init example_dispatcher NoneGiven True of
        Inr (d, ob) \<Rightarrow> d
      | Inl e \<Rightarrow> example_dispatcher)"

definition example_observer :: IsCompletedObserver where
  "example_observer =
     \<lparr>features = [(OPERATIONS, zeros 4 1), (MACHINES, zeros 2 1), (JOBS, zeros 2 1)],
      remaining_ops_per_machine = [[2], [2]],
      remaining_ops_per_job = [[2], [2]]\<rparr>"

definition example_commits :: "(Operation \<times> nat \<times> int) list" where
  "example_commits = [(op00, 0, 0), (op10, 1, 0), (op01, 1, 4), (op11, 0, 4)]"

text \<open>
  The same scenario with an observer of machines and jobs constructed late: machine 0
  has run both of its operations, and job 1 both of its own, before the observer is
  constructed; then the last operation is committed.
\<close>

definition example_machine0_done :: Dispatcher where
  "example_machine0_done = snd (commits example_dispatcher [(op00, 0, 0), (op10, 1, 0), (op11, 0, 4)])"

definition example_late_observed :: Dispatcher where
  "example_late_observed =
     (case IsCompletedObserver_init example_machine0_done (ManyTypes [MACHINES, JOBS]) True of
        Inr (d, ob) \<Rightarrow> d
      | Inl e \<Rightarrow> example_machine0_done)"

definition example_late_final :: Dispatcher where
  "example_late_final = snd (commits example_late_observed [(op01, 1, 4)])"





text \<open>
  The scenario with the observer subscribed first, when machine 0 and job 1 have run all
  their operations, and a residual graph updater that refers to that observer.
\<close>

definition example_observed_machine0_done :: Dispatcher where
  "example_observed_machine0_done =
     snd (commits example_observed [(op00, 0, 0), (op10, 1, 0), (op11, 0, 4)])"

definition example_updater :: ResidualGraphUpdater where
  "example_updater =
     \<lparr>is_completed_observer_attr = Some 0,
      remove_completed_machine_nodes = True,
      remove_completed_job_nodes = True,
      job_shop_graph = example_graph\<rparr>"







section \<open>Construction of feature observers\<close>

text \<open>
  C8. The claim: a construction that requests a feature type outside the supported
  ones fails with a ValidationError. The code checks a list of types only; a single
  \<open>FeatureType\<close> given as the argument is wrapped into a list and returned before the
  check. With \<open>_supported_feature_types = [OPERATIONS]\<close> the request \<open>MACHINES\<close> is
  accepted, and a table for it is created.
\<close>

theorem single_unsupported_feature_type_accepted:
  "get_feature_types_list [OPERATIONS] (OneType MACHINES) = Inr [MACHINES]
   \<and> get_feature_types_list [OPERATIONS] (ManyTypes [MACHINES]) = Inl ValidationError
   \<and> FeatureObserver_tables [OPERATIONS] (SizeInt 1) \<lparr>jobs = []\<rparr> (OneType MACHINES)
       = Inr [(MACHINES, [])]"
  by (simp add: get_feature_types_list_def FeatureObserver_tables_def feature_dimensions_def
      dict_of_def new_features_def zeros_def number_of_entities_def num_machines_def
      operations_def)

section \<open>The inherited update\<close>

text \<open>
  C9. For every feature observer of a class that does not define \<open>update\<close> of its own
  (\<open>EarliestStartTimeObserver\<close> and the base class), \<open>update(scheduled_operation)\<close> has the
  result of \<open>initialize_features()\<close> on the current state of the dispatcher: the same
  tables or the same exception, whatever the scheduled operation is.
\<close>

theorem inherited_update_is_initialize_features:
  "\<not> overrides_update ob \<Longrightarrow> update d ob sop = initialize_features d ob"
  by (cases ob) (simp_all add: FeatureObserver_update_def)

theorem inherited_update_is_initialize_features_witness:
  "\<not> overrides_update example_earliest_observer
   \<and> update example_after_op00 example_earliest_observer
        \<lparr>operation = op00, start_time = 0, machine_id = 0\<rparr>
      = initialize_features example_after_op00 example_earliest_observer
   \<and> initialize_features example_after_op00 example_earliest_observer
      = Inr (EarliestStartTimeObs
              \<lparr>features = [(OPERATIONS, [[0], [3], [0], [3]]), (MACHINES, [[3], [0]]),
                           (JOBS, [[3], [0]])]\<rparr>)"
proof -
  have h: "\<not> overrides_update example_earliest_observer"
    by (simp add: example_earliest_observer_def)
  have v: "initialize_features example_after_op00 example_earliest_observer
      = Inr (EarliestStartTimeObs
              \<lparr>features = [(OPERATIONS, [[0], [3], [0], [3]]), (MACHINES, [[3], [0]]),
                           (JOBS, [[3], [0]])]\<rparr>)"
    by code_simp
  from inherited_update_is_initialize_features[OF h] h v show ?thesis by simp
qed

section \<open>The completion observer of the residual graph updater\<close>

lemma first_position_Some:
  "first_position c subs i = Some r \<Longrightarrow> i \<le> r \<and> r - i < length subs \<and> c (subs ! (r - i))"
proof (induction subs arbitrary: i)
  case Nil
  then show ?case by simp
next
  case (Cons ob rest)
  show ?case
  proof (cases "c ob")
    case True
    with Cons.prems show ?thesis by simp
  next
    case False
    with Cons.prems have "first_position c rest (Suc i) = Some r" by simp
    from Cons.IH[OF this] show ?thesis
      by (auto simp: nth_Cons' Suc_diff_Suc)
  qed
qed

lemma map_of_dict_of_aux:
  "map_of (fold (\<lambda>(k, v) acc. AList.update k v acc) kvs acc) k
     = (case map_of (rev kvs) k of Some v \<Rightarrow> Some v | None \<Rightarrow> map_of acc k)"
  by (induction kvs arbitrary: acc) (auto simp: update_conv' split: option.splits)

lemma has_feature_new_features:
  "has_feature (new_features (dict_of (map (\<lambda>ft. (ft, f ft)) fts))) ft = (ft \<in> set fts)"
proof -
  have "map_of (dict_of (map (\<lambda>ft. (ft, f ft)) fts)) ft \<noteq> None \<longleftrightarrow> ft \<in> set fts"
    by (auto simp: dict_of_def map_of_dict_of_aux map_of_eq_None_iff image_iff
        split: option.splits dest!: map_of_SomeD)
  moreover have "map_of (new_features dims) ft = map_option (\<lambda>(n, k). zeros n k) (map_of dims ft)" for dims
    by (induction dims) (auto simp: new_features_def)
  ultimately show ?thesis by (simp add: has_feature_def)
qed

lemma features_count_remaining_operations:
  "count_remaining_operations d ob = Inr ob' \<Longrightarrow> features ob' = features ob"
  by (auto simp: count_remaining_operations_def split: sum.splits)

lemma features_copy_remaining_operations:
  "copy_remaining_operations r ob = Inr ob' \<Longrightarrow> features ob' = features ob"
  by (auto simp: copy_remaining_operations_def split: sum.splits if_splits)

lemma features_IsCompletedObserver_initialize_features:
  "IsCompletedObserver_initialize_features d ob = Inr ob' \<Longrightarrow> features ob' = features ob"
  by (auto simp: IsCompletedObserver_initialize_features_def
      dest: features_count_remaining_operations features_copy_remaining_operations
      split: option.splits)

lemma IsCompletedObserver_init_subscribed:
  assumes "IsCompletedObserver_init d (ManyTypes fts) True = Inr (d', ob)"
  shows "subscribers d' = subscribers d @ [FeatureObs (IsCompletedObs ob)]"
    and "list_all (has_feature (features ob)) fts"
  using assms
  by (auto simp: IsCompletedObserver_init_def get_feature_types_list_def Let_def
      FeatureObserver_tables_def feature_dimensions_def has_feature_new_features list_all_iff
      dest!: features_IsCompletedObserver_initialize_features
      split: sum.splits if_splits)

lemma create_or_get_observer_covers:
  assumes "create_or_get_observer d (has_all_features fts) fts = Inr (d', r)"
  shows "\<exists>ob. deref d' r = Inr ob \<and> list_all (has_feature (features ob)) fts"
proof (cases "first_position (has_all_features fts) (subscribers d) 0")
  case None
  with assms obtain ob where i: "IsCompletedObserver_init d (ManyTypes fts) True = Inr (d', ob)"
    and r: "r = length (subscribers d)"
    by (auto simp: create_or_get_observer_def split: sum.splits)
  from IsCompletedObserver_init_subscribed[OF i] r show ?thesis
    by (auto simp: deref_def)
next
  case (Some r')
  with assms have eq: "d' = d" "r' = r"
    by (auto simp: create_or_get_observer_def)
  from first_position_Some[OF Some] eq
  have "r < length (subscribers d)" "has_all_features fts (subscribers d ! r)" by auto
  then show ?thesis using eq
    by (cases "(fts, subscribers d ! r)" rule: has_all_features.cases) (auto simp: deref_def)
qed

lemma deref_append: "deref d r = Inr ob \<Longrightarrow> deref (d\<lparr>subscribers := subscribers d @ xs\<rparr>) r = Inr ob"
  by (auto simp: deref_def nth_append split: if_splits)

text \<open>
  C6. For every \<open>ResidualGraphUpdater\<close> that its constructor built, the accessor
  \<open>is_completed_observer\<close> raises UninitializedAttributeError if and only if both
  \<open>remove_completed_machine_nodes\<close> and \<open>remove_completed_job_nodes\<close> were False; with at
  least one of them True it returns an \<open>IsCompletedObserver\<close> subscribed to the
  dispatcher whose tables cover MACHINES and/or JOBS as configured.
\<close>

theorem is_completed_observer_raises_iff_unconfigured:
  assumes "ResidualGraphUpdater_init d g singleton subscribe rm rj = Inr (d', u)"
  shows "(is_completed_observer u = Inl UninitializedAttributeError \<longleftrightarrow> \<not> rm \<and> \<not> rj)
    \<and> (rm \<or> rj \<longrightarrow>
        (\<exists>r ob. is_completed_observer u = Inr r \<and> deref d' r = Inr ob
           \<and> (rm \<longrightarrow> has_feature (features ob) MACHINES)
           \<and> (rj \<longrightarrow> has_feature (features ob) JOBS)))"
proof (cases "rm \<or> rj")
  case False
  with assms show ?thesis
    by (auto simp: ResidualGraphUpdater_init_def initialize_is_completed_observer_attribute_def
        is_completed_observer_def Let_def split: if_splits)
next
  case True
  define fts where "fts = (if rm then [MACHINES] else []) @ (if rj then [JOBS] else [])"
  from True have ne: "fts \<noteq> []" by (auto simp: fts_def)
  from assms ne obtain d1 r where
    c: "create_or_get_observer d (has_all_features fts) fts = Inr (d1, r)"
    and u: "is_completed_observer_attr u = Some r"
    and d': "d' = d1 \<or> d' = d1\<lparr>subscribers := subscribers d1 @ [GraphUpd u]\<rparr>"
    by (auto simp: ResidualGraphUpdater_init_def initialize_is_completed_observer_attribute_def
        Let_def fts_def[symmetric] split: sum.splits if_splits)
  from create_or_get_observer_covers[OF c] obtain ob where
    ob: "deref d1 r = Inr ob" "list_all (has_feature (features ob)) fts" by blast
  from d' ob(1) have "deref d' r = Inr ob" by (auto dest: deref_append)
  moreover from ob(2) have "(rm \<longrightarrow> has_feature (features ob) MACHINES)
     \<and> (rj \<longrightarrow> has_feature (features ob) JOBS)"
    by (auto simp: fts_def)
  ultimately show ?thesis using u True
    by (auto simp: is_completed_observer_def)
qed

theorem is_completed_observer_raises_iff_unconfigured_witness:
  "(case ResidualGraphUpdater_init example_dispatcher example_graph False True True False of
      Inl e \<Rightarrow> False
    | Inr (d', u) \<Rightarrow>
        is_completed_observer u = Inr 0
        \<and> map_sum id features (deref d' 0) = Inr [(MACHINES, [[0], [0]])]
        \<and> ((is_completed_observer u = Inl UninitializedAttributeError) = (\<not> True \<and> \<not> False)))
   \<and> (case ResidualGraphUpdater_init example_dispatcher example_graph False True False False of
      Inl e \<Rightarrow> False
    | Inr (d', u) \<Rightarrow>
        ((is_completed_observer u = Inl UninitializedAttributeError) = (\<not> False \<and> \<not> False)))"
proof -
  have "case ResidualGraphUpdater_init example_dispatcher example_graph False True True False of
          Inl e \<Rightarrow> False
        | Inr (d', u) \<Rightarrow> is_completed_observer u = Inr 0
            \<and> map_sum id features (deref d' 0) = Inr [(MACHINES, [[0], [0]])]"
    by code_simp
  moreover have
    "case ResidualGraphUpdater_init example_dispatcher example_graph False True False False of
       Inl e \<Rightarrow> False | Inr p \<Rightarrow> True"
    by code_simp
  ultimately show ?thesis
    using is_completed_observer_raises_iff_unconfigured
      [of example_dispatcher example_graph False True True False]
      is_completed_observer_raises_iff_unconfigured
      [of example_dispatcher example_graph False True False False]
    by (auto split: sum.splits)
qed

section \<open>Lemmas on tables and on the counting loop\<close>

lemma shifted_refl: "shifted a a (\<lambda>_. 0)"
  by (simp add: shifted_def)

lemma shifted_trans:
  "shifted a b f \<Longrightarrow> shifted b c g \<Longrightarrow> shifted a c (\<lambda>i. f i + g i)"
  by (auto simp: shifted_def)

lemma shifted_cong: "shifted a b f \<Longrightarrow> (\<And>i. i < length a \<Longrightarrow> f i = g i) \<Longrightarrow> shifted a b g"
  by (auto simp: shifted_def)

lemma add0_rows_shifted:
  assumes "add0_rows a idx d = Inr a'"
  shows "shifted a a' (\<lambda>i. if i \<in> set idx then d else 0)"
proof -
  from assms have ok: "rows_ok a idx"
    and a': "a' = map (\<lambda>(i, row). if i \<in> set idx then (hd row + d) # tl row else row) (enumerate 0 a)"
    by (auto simp: add0_rows_def split: if_splits)
  from ok have ne: "\<And>i. i \<in> set idx \<Longrightarrow> a ! i \<noteq> []"
    by (auto simp: rows_ok_def list_all_iff)
  show ?thesis
    unfolding shifted_def a' using ne by (auto simp: nth_enumerate_eq)
qed


lemma add0_shifted:
  assumes "add0 a i d = Inr a'"
  shows "shifted a a' (\<lambda>k. if k = i then d else 0)" and "i < length a" and "a ! i \<noteq> []"
  using assms
  by (auto simp: add0_def get0_def set0_def shifted_def nth_list_update split: if_splits sum.splits)


lemma count_operation_shifted:
  assumes "count_operation fs op c = Inr c'"
  shows "shifted (fst c) (fst c') (\<lambda>m. if has_feature fs MACHINES \<and> m \<in> set (machines op) then 1 else 0)"
    and "shifted (snd c) (snd c') (\<lambda>j. if has_feature fs JOBS \<and> job_id op = j then 1 else 0)"
proof -
  from assms obtain pm pj where c': "c' = (pm, pj)"
    and pj: "(if has_feature fs JOBS then add0 (snd c) (job_id op) 1 else Inr (snd c)) = Inr pj"
    and pm: "(if has_feature fs MACHINES then add0_rows (fst c) (machines op) 1 else Inr (fst c)) = Inr pm"
    by (auto simp: count_operation_def split: sum.splits)
  show "shifted (fst c) (fst c') (\<lambda>m. if has_feature fs MACHINES \<and> m \<in> set (machines op) then 1 else 0)"
  proof (cases "has_feature fs MACHINES")
    case True
    with pm have "add0_rows (fst c) (machines op) 1 = Inr pm" by simp
    from add0_rows_shifted[OF this] True c' show ?thesis by simp
  next
    case False
    with pm c' show ?thesis by (simp add: shifted_refl)
  qed
  show "shifted (snd c) (snd c') (\<lambda>j. if has_feature fs JOBS \<and> job_id op = j then 1 else 0)"
  proof (cases "has_feature fs JOBS")
    case True
    with pj have "add0 (snd c) (job_id op) 1 = Inr pj" by simp
    from add0_shifted(1)[OF this] True c' show ?thesis
      by (auto elim!: shifted_cong)
  next
    case False
    with pj c' show ?thesis by (simp add: shifted_refl)
  qed
qed

lemma foldE_count_operation_shifted:
  assumes "foldE (count_operation fs) ops c = Inr c'"
  shows "shifted (fst c) (fst c') (\<lambda>m. if has_feature fs MACHINES then scan_machine ops m else 0)
       \<and> shifted (snd c) (snd c') (\<lambda>j. if has_feature fs JOBS then scan_job ops j else 0)"
  using assms
proof (induction ops arbitrary: c)
  case Nil
  then show ?case by (simp add: shifted_def scan_machine_def scan_job_def)
next
  case (Cons op ops)
  then obtain c1 where 1: "count_operation fs op c = Inr c1"
    and 2: "foldE (count_operation fs) ops c1 = Inr c'"
    by (auto split: sum.splits)
  from Cons.IH[OF 2] have 3: "shifted (fst c1) (fst c') (\<lambda>m. if has_feature fs MACHINES then scan_machine ops m else 0)"
    and 4: "shifted (snd c1) (snd c') (\<lambda>j. if has_feature fs JOBS then scan_job ops j else 0)"
    by simp_all
  have "shifted (fst c) (fst c') (\<lambda>m. if has_feature fs MACHINES then scan_machine (op # ops) m else 0)"
    by (rule shifted_cong[OF shifted_trans[OF count_operation_shifted(1)[OF 1] 3]])
       (simp add: scan_machine_def)
  moreover have "shifted (snd c) (snd c') (\<lambda>j. if has_feature fs JOBS then scan_job (op # ops) j else 0)"
    by (rule shifted_cong[OF shifted_trans[OF count_operation_shifted(2)[OF 1] 4]])
       (simp add: scan_job_def)
  ultimately show ?case by simp
qed

lemma zero_col0_rows:
  assumes "zero_col0 a = Inr a'"
  shows "length a' = length a"
    and "\<And>i. i < length a \<Longrightarrow> hd (a' ! i) = 0 \<and> tl (a' ! i) = tl (a ! i) \<and> a' ! i \<noteq> [] \<and> a ! i \<noteq> []"
  using assms by (auto simp: zero_col0_def list_all_iff split: if_splits)

lemma get0_shifted:
  "shifted a a' f \<Longrightarrow> i < length a \<Longrightarrow> get0 a' i = map_sum id (\<lambda>v. v + f i) (get0 a i)"
  by (auto simp: shifted_def get0_def)

lemma count_remaining_operations_counts:
  assumes "count_remaining_operations d ob = Inr ob'"
  shows "features ob' = features ob"
    and "length (remaining_ops_per_machine ob') = length (remaining_ops_per_machine ob)"
    and "length (remaining_ops_per_job ob') = length (remaining_ops_per_job ob)"
    and "\<And>m. m < length (remaining_ops_per_machine ob) \<Longrightarrow>
           remaining_ops_per_machine ob' ! m =
             (if has_feature (features ob) MACHINES
              then scan_machine (unscheduled_operations d) m else 0)
             # tl (remaining_ops_per_machine ob ! m)"
    and "\<And>j. j < length (remaining_ops_per_job ob) \<Longrightarrow>
           remaining_ops_per_job ob' ! j =
             (if has_feature (features ob) JOBS
              then scan_job (unscheduled_operations d) j else 0)
             # tl (remaining_ops_per_job ob ! j)"
proof -
  from assms obtain pm0 pj0 c where
    z1: "zero_col0 (remaining_ops_per_machine ob) = Inr pm0"
    and z2: "zero_col0 (remaining_ops_per_job ob) = Inr pj0"
    and f: "foldE (count_operation (features ob)) (unscheduled_operations d) (pm0, pj0) = Inr c"
    and ob': "ob' = ob\<lparr>remaining_ops_per_machine := fst c, remaining_ops_per_job := snd c\<rparr>"
    by (auto simp: count_remaining_operations_def split: sum.splits)
  from foldE_count_operation_shifted[OF f]
  have s1: "shifted pm0 (fst c) (\<lambda>m. if has_feature (features ob) MACHINES
              then scan_machine (unscheduled_operations d) m else 0)"
    and s2: "shifted pj0 (snd c) (\<lambda>j. if has_feature (features ob) JOBS
              then scan_job (unscheduled_operations d) j else 0)"
    by simp_all
  show "features ob' = features ob" by (simp add: ob')
  show "length (remaining_ops_per_machine ob') = length (remaining_ops_per_machine ob)"
    using s1 zero_col0_rows(1)[OF z1] by (simp add: ob' shifted_def)
  show "length (remaining_ops_per_job ob') = length (remaining_ops_per_job ob)"
    using s2 zero_col0_rows(1)[OF z2] by (simp add: ob' shifted_def)
  show "remaining_ops_per_machine ob' ! m =
             (if has_feature (features ob) MACHINES
              then scan_machine (unscheduled_operations d) m else 0)
             # tl (remaining_ops_per_machine ob ! m)"
    if "m < length (remaining_ops_per_machine ob)" for m
  proof -
    from that zero_col0_rows[OF z1] have m: "m < length pm0" "hd (pm0 ! m) = 0"
      "tl (pm0 ! m) = tl (remaining_ops_per_machine ob ! m)" "pm0 ! m \<noteq> []" by auto
    with s1 have "fst c ! m \<noteq> []" "hd (fst c ! m) = (if has_feature (features ob) MACHINES
              then scan_machine (unscheduled_operations d) m else 0)"
      "tl (fst c ! m) = tl (remaining_ops_per_machine ob ! m)"
      by (auto simp: shifted_def)
    then show ?thesis by (cases "fst c ! m") (auto simp: ob')
  qed
  show "remaining_ops_per_job ob' ! j =
             (if has_feature (features ob) JOBS
              then scan_job (unscheduled_operations d) j else 0)
             # tl (remaining_ops_per_job ob ! j)"
    if "j < length (remaining_ops_per_job ob)" for j
  proof -
    from that zero_col0_rows[OF z2] have m: "j < length pj0" "hd (pj0 ! j) = 0"
      "tl (pj0 ! j) = tl (remaining_ops_per_job ob ! j)" "pj0 ! j \<noteq> []" by auto
    with s2 have "snd c ! j \<noteq> []" "hd (snd c ! j) = (if has_feature (features ob) JOBS
              then scan_job (unscheduled_operations d) j else 0)"
      "tl (snd c ! j) = tl (remaining_ops_per_job ob ! j)"
      by (auto simp: shifted_def)
    then show ?thesis by (cases "snd c ! j") (auto simp: ob')
  qed
qed

lemma set0_rows_from_rows:
  assumes "set0_rows_from a idx f = Inr a'"
  shows "length a' = length a"
    and "\<And>i. i < length a \<Longrightarrow> a' ! i = (if i \<in> set idx then f i # tl (a ! i) else a ! i)"
    and "rows_ok a idx"
  using assms by (auto simp: set0_rows_from_def nth_enumerate_eq split: if_splits)

lemma feature_update:
  "feature (AList.update k v fs) k' = (if k' = k then Inr v else feature fs k')"
  by (simp add: feature_def update_conv')

lemma has_feature_update:
  "has_feature (AList.update k v fs) k' = (k' = k \<or> has_feature fs k')"
  by (simp add: has_feature_def update_conv')

lemma has_feature_feature: "has_feature fs ft \<Longrightarrow> \<exists>a. feature fs ft = Inr a"
  by (auto simp: has_feature_def feature_def)

lemma update_operations_block_frame:
  assumes "update_operations_block d ob = Inr ob'"
  shows "remaining_ops_per_machine ob' = remaining_ops_per_machine ob"
    and "remaining_ops_per_job ob' = remaining_ops_per_job ob"
    and "\<And>ft. has_feature (features ob') ft = has_feature (features ob) ft"
    and "\<And>ft. ft \<noteq> OPERATIONS \<Longrightarrow> feature (features ob') ft = feature (features ob) ft"
  using assms
  by (auto simp: update_operations_block_def feature_update has_feature_update
      split: if_splits sum.splits)

lemma update_machines_block_effect:
  assumes "update_machines_block sop ob = Inr ob'" and "has_feature (features ob) MACHINES"
  shows "shifted (remaining_ops_per_machine ob) (remaining_ops_per_machine ob')
           (\<lambda>m. if m \<in> set (machines (operation sop)) then - 1 else 0)"
    and "rows_ok (remaining_ops_per_machine ob) (machines (operation sop))"
    and "\<exists>a a'. feature (features ob) MACHINES = Inr a \<and> feature (features ob') MACHINES = Inr a'
           \<and> length a' = length a \<and> rows_ok a (machines (operation sop))
           \<and> (\<forall>m<length a. a' ! m =
                 (if m \<in> set (machines (operation sop))
                  then of_bool_int (hd (remaining_ops_per_machine ob' ! m) = 0) # tl (a ! m)
                  else a ! m))"
proof -
  from assms obtain pm a a' where
    pm: "add0_rows (remaining_ops_per_machine ob) (machines (operation sop)) (- 1) = Inr pm"
    and a: "feature (features ob) MACHINES = Inr a"
    and a': "set0_rows_from a (machines (operation sop)) (\<lambda>m. of_bool_int (hd (pm ! m) = 0)) = Inr a'"
    and ob': "ob' = ob\<lparr>features := AList.update MACHINES a' (features ob),
                       remaining_ops_per_machine := pm\<rparr>"
    by (auto simp: update_machines_block_def split: sum.splits)
  from add0_rows_shifted[OF pm]
  show "shifted (remaining_ops_per_machine ob) (remaining_ops_per_machine ob')
           (\<lambda>m. if m \<in> set (machines (operation sop)) then - 1 else 0)"
    by (simp add: ob')
  from pm show "rows_ok (remaining_ops_per_machine ob) (machines (operation sop))"
    by (auto simp: add0_rows_def split: if_splits)
  from set0_rows_from_rows[OF a'] a
  show "\<exists>a a'. feature (features ob) MACHINES = Inr a \<and> feature (features ob') MACHINES = Inr a'
           \<and> length a' = length a \<and> rows_ok a (machines (operation sop))
           \<and> (\<forall>m<length a. a' ! m =
                 (if m \<in> set (machines (operation sop))
                  then of_bool_int (hd (remaining_ops_per_machine ob' ! m) = 0) # tl (a ! m)
                  else a ! m))"
    by (auto simp: ob' feature_update)
qed

lemma update_machines_block_frame:
  assumes "update_machines_block sop ob = Inr ob'"
  shows "remaining_ops_per_job ob' = remaining_ops_per_job ob"
    and "\<And>ft. has_feature (features ob') ft = has_feature (features ob) ft"
    and "\<And>ft. ft \<noteq> MACHINES \<Longrightarrow> feature (features ob') ft = feature (features ob) ft"
    and "\<not> has_feature (features ob) MACHINES \<Longrightarrow> ob' = ob"
  using assms
  by (auto simp: update_machines_block_def feature_update has_feature_update
      split: if_splits sum.splits)

lemma update_jobs_block_effect:
  assumes "update_jobs_block sop ob = Inr ob'" and "has_feature (features ob) JOBS"
  shows "shifted (remaining_ops_per_job ob) (remaining_ops_per_job ob')
           (\<lambda>j. if j = job_id (operation sop) then - 1 else 0)"
    and "job_id (operation sop) < length (remaining_ops_per_job ob)"
    and "remaining_ops_per_job ob ! job_id (operation sop) \<noteq> []"
    and "\<exists>a a'. feature (features ob) JOBS = Inr a \<and> feature (features ob') JOBS = Inr a'
           \<and> length a' = length a \<and> job_id (operation sop) < length a
           \<and> a ! job_id (operation sop) \<noteq> []
           \<and> (\<forall>j<length a. a' ! j =
                 (if j = job_id (operation sop)
                  then of_bool_int (hd (remaining_ops_per_job ob' ! j) = 0) # tl (a ! j)
                  else a ! j))"
proof -
  from assms obtain pj v a a' where
    pj: "add0 (remaining_ops_per_job ob) (job_id (operation sop)) (- 1) = Inr pj"
    and v: "get0 pj (job_id (operation sop)) = Inr v"
    and a: "feature (features ob) JOBS = Inr a"
    and a': "set0 a (job_id (operation sop)) (of_bool_int (v = 0)) = Inr a'"
    and ob': "ob' = ob\<lparr>features := AList.update JOBS a' (features ob),
                       remaining_ops_per_job := pj\<rparr>"
    by (auto simp: update_jobs_block_def split: sum.splits)
  from add0_shifted[OF pj]
  show "shifted (remaining_ops_per_job ob) (remaining_ops_per_job ob')
           (\<lambda>j. if j = job_id (operation sop) then - 1 else 0)"
    and "job_id (operation sop) < length (remaining_ops_per_job ob)"
    and "remaining_ops_per_job ob ! job_id (operation sop) \<noteq> []"
    by (simp_all add: ob')
  from v have "v = hd (pj ! job_id (operation sop))"
    by (auto simp: get0_def split: if_splits)
  with a a' show "\<exists>a a'. feature (features ob) JOBS = Inr a \<and> feature (features ob') JOBS = Inr a'
           \<and> length a' = length a \<and> job_id (operation sop) < length a
           \<and> a ! job_id (operation sop) \<noteq> []
           \<and> (\<forall>j<length a. a' ! j =
                 (if j = job_id (operation sop)
                  then of_bool_int (hd (remaining_ops_per_job ob' ! j) = 0) # tl (a ! j)
                  else a ! j))"
    by (auto simp: ob' feature_update set0_def nth_list_update split: if_splits)
qed

lemma update_jobs_block_frame:
  assumes "update_jobs_block sop ob = Inr ob'"
  shows "remaining_ops_per_machine ob' = remaining_ops_per_machine ob"
    and "\<And>ft. has_feature (features ob') ft = has_feature (features ob) ft"
    and "\<And>ft. ft \<noteq> JOBS \<Longrightarrow> feature (features ob') ft = feature (features ob) ft"
    and "\<not> has_feature (features ob) JOBS \<Longrightarrow> ob' = ob"
  using assms
  by (auto simp: update_jobs_block_def feature_update has_feature_update
      split: if_splits sum.splits)

section \<open>Lemmas on notification and on full scans\<close>

lemma notify_from_engine:
  "notify_from k i sop d = (r, d') \<Longrightarrow>
     d' = d\<lparr>subscribers := subscribers d'\<rparr> \<and> length (subscribers d') = length (subscribers d)"
proof (induction k arbitrary: i d)
  case 0
  then show ?case by simp
next
  case (Suc k)
  show ?case
  proof (cases "observer_update d (subscribers d ! i) sop")
    case (Inl e)
    with Suc.prems show ?thesis by simp
  next
    case (Inr ob)
    with Suc.prems have "notify_from k (Suc i) sop (d\<lparr>subscribers := (subscribers d)[i := ob]\<rparr>) = (r, d')"
      by simp
    from Suc.IH[OF this] show ?thesis
      by (cases d, cases d') simp
  qed
qed

lemma notify_from_nth:
  assumes "notify_from k i sop d = (None, d')"
  shows "(\<forall>j. j < i \<or> i + k \<le> j \<longrightarrow> subscribers d' ! j = subscribers d ! j)
       \<and> (\<forall>j. i \<le> j \<and> j < i + k \<and> j < length (subscribers d) \<longrightarrow>
             (\<exists>subs. length subs = length (subscribers d)
                \<and> (\<forall>l<j. subs ! l = subscribers d' ! l)
                \<and> (\<forall>l\<ge>j. subs ! l = subscribers d ! l)
                \<and> observer_update (d\<lparr>subscribers := subs\<rparr>) (subscribers d ! j) sop
                    = Inr (subscribers d' ! j)))"
  using assms
proof (induction k arbitrary: i d)
  case 0
  then show ?case by auto
next
  case (Suc k)
  from Suc.prems obtain ob where ob: "observer_update d (subscribers d ! i) sop = Inr ob"
    and rest: "notify_from k (Suc i) sop (d\<lparr>subscribers := (subscribers d)[i := ob]\<rparr>) = (None, d')"
    by (auto split: sum.splits)
  let ?d1 = "d\<lparr>subscribers := (subscribers d)[i := ob]\<rparr>"
  note IH = Suc.IH[OF rest]
  from IH have keep: "\<And>j. j < Suc i \<or> Suc i + k \<le> j \<Longrightarrow> subscribers d' ! j = subscribers ?d1 ! j"
    by blast
  from IH have upd: "\<And>j. Suc i \<le> j \<Longrightarrow> j < Suc i + k \<Longrightarrow> j < length (subscribers d) \<Longrightarrow>
      \<exists>subs. length subs = length (subscribers d)
                \<and> (\<forall>l<j. subs ! l = subscribers d' ! l)
                \<and> (\<forall>l\<ge>j. subs ! l = subscribers ?d1 ! l)
                \<and> observer_update (?d1\<lparr>subscribers := subs\<rparr>) (subscribers ?d1 ! j) sop
                    = Inr (subscribers d' ! j)"
    by simp
  show ?case
  proof (intro conjI allI impI)
    fix j assume "j < i \<or> i + Suc k \<le> j"
    then have "j \<noteq> i" "j < Suc i \<or> Suc i + k \<le> j" by auto
    with keep[of j] show "subscribers d' ! j = subscribers d ! j" by simp
  next
    fix j assume j: "i \<le> j \<and> j < i + Suc k \<and> j < length (subscribers d)"
    show "\<exists>subs. length subs = length (subscribers d)
                \<and> (\<forall>l<j. subs ! l = subscribers d' ! l)
                \<and> (\<forall>l\<ge>j. subs ! l = subscribers d ! l)
                \<and> observer_update (d\<lparr>subscribers := subs\<rparr>) (subscribers d ! j) sop
                    = Inr (subscribers d' ! j)"
    proof (cases "j = i")
      case True
      from keep[of i] j True have "subscribers d' ! i = ob" by simp
      moreover from keep have "\<forall>l<i. subscribers d ! l = subscribers d' ! l"
        by (simp add: nth_list_update)
      ultimately show ?thesis using ob True
        by (intro exI[of _ "subscribers d"]) simp
    next
      case False
      with j have "Suc i \<le> j" "j < Suc i + k" "j < length (subscribers d)" by auto
      from upd[OF this] obtain subs where s: "length subs = length (subscribers d)"
        "\<forall>l<j. subs ! l = subscribers d' ! l"
        "\<forall>l\<ge>j. subs ! l = subscribers ?d1 ! l"
        "observer_update (?d1\<lparr>subscribers := subs\<rparr>) (subscribers ?d1 ! j) sop
           = Inr (subscribers d' ! j)" by blast
      from False s(3) have "\<forall>l\<ge>j. subs ! l = subscribers d ! l"
        using \<open>Suc i \<le> j\<close> by (auto simp: nth_list_update)
      moreover from s(4) False have "observer_update (d\<lparr>subscribers := subs\<rparr>) (subscribers d ! j) sop
           = Inr (subscribers d' ! j)" by simp
      ultimately show ?thesis using s(1,2) by blast
    qed
  qed
qed

lemma completed_operations_subscribers [simp]:
  "completed_operations (d\<lparr>subscribers := subs\<rparr>) = completed_operations d"
  by (simp add: completed_operations_def scheduled_operations_def current_time_def)

lemma update_operations_block_subscribers [simp]:
  "update_operations_block (d\<lparr>subscribers := subs\<rparr>) ob = update_operations_block d ob"
  unfolding update_operations_block_def by (simp split: sum.splits)

lemma IsCompletedObserver_update_subscribers [simp]:
  "IsCompletedObserver_update (d\<lparr>subscribers := subs\<rparr>) ob sop = IsCompletedObserver_update d ob sop"
  unfolding IsCompletedObserver_update_def by (simp split: sum.splits)

lemma commit_success:
  assumes "commit d op m t = (None, d')"
  shows "m \<in> set (machines op)" and "\<not> is_scheduled d op"
    and "\<exists>e. earliest_start_time d op (Some m) = Inr e \<and> e \<le> t"
    and "\<exists>d1. apply_commit d \<lparr>operation = op, start_time = t, machine_id = m\<rparr> = Inr d1
           \<and> notify \<lparr>operation = op, start_time = t, machine_id = m\<rparr> d1 = (None, d')"
  using assms by (auto simp: commit_def split: if_splits sum.splits)

lemma apply_commit_fields:
  assumes "apply_commit d s = Inr d1"
  shows "instance_d d1 = instance_d d" and "subscribers d1 = subscribers d"
    and "unscheduled d1 = removeAll (operation s) (unscheduled d)"
    and "last_committed d1 = Some s"
    and "Schedule_add (schedule d) s = Inr (schedule d1)"
    and "machine_next_available_time d1 = (machine_next_available_time d)[machine_id s := end_time s]"
    and "job_next_available_time d1 = (job_next_available_time d)[job_id (operation s) := end_time s]"
    and "machine_id s < length (machine_next_available_time d)"
    and "job_id (operation s) < length (job_next_available_time d)"
  using assms by (auto simp: apply_commit_def split: if_splits sum.splits)

lemma scan_machine_removeAll:
  "distinct ops \<Longrightarrow> op \<in> set ops \<Longrightarrow>
     scan_machine (removeAll op ops) m = scan_machine ops m - (if m \<in> set (machines op) then 1 else 0)"
  by (induction ops) (auto simp: scan_machine_def)

lemma scan_job_removeAll:
  "distinct ops \<Longrightarrow> op \<in> set ops \<Longrightarrow>
     scan_job (removeAll op ops) j = scan_job ops j - (if job_id op = j then 1 else 0)"
  by (induction ops) (auto simp: scan_job_def)

lemma scan_machine_pos: "op \<in> set ops \<Longrightarrow> m \<in> set (machines op) \<Longrightarrow> 0 < scan_machine ops m"
  by (induction ops) (auto simp: scan_machine_def)

lemma scan_job_pos: "op \<in> set ops \<Longrightarrow> 0 < scan_job ops (job_id op)"
  by (induction ops) (auto simp: scan_job_def)

section \<open>Lemmas on well-formed states\<close>

lemma list_all_enumerate:
  "list_all P (enumerate 0 xs) \<longleftrightarrow> (\<forall>i<length xs. P (i, xs ! i))"
  by (simp add: list_all_length nth_enumerate_eq)

lemma fold_max_Suc_ge: "a \<le> fold (\<lambda>m acc. max (Suc m) acc) ms a"
proof (induction ms arbitrary: a)
  case Nil
  then show ?case by simp
next
  case (Cons x ms)
  have "a \<le> max (Suc x) a" by simp
  also have "\<dots> \<le> fold (\<lambda>m acc. max (Suc m) acc) ms (max (Suc x) a)" by (rule Cons.IH)
  finally show ?case by simp
qed

lemma fold_max_Suc_mem: "m \<in> set ms \<Longrightarrow> m < fold (\<lambda>m acc. max (Suc m) acc) ms a"
proof (induction ms arbitrary: a)
  case Nil
  then show ?case by simp
next
  case (Cons x ms)
  show ?case
  proof (cases "m = x")
    case True
    have "max (Suc x) a \<le> fold (\<lambda>m acc. max (Suc m) acc) ms (max (Suc x) a)"
      by (rule fold_max_Suc_ge)
    with True show ?thesis by simp
  next
    case False
    with Cons.prems have "m \<in> set ms" by simp
    from Cons.IH[OF this] show ?thesis by simp
  qed
qed

lemma machine_in_range:
  "op \<in> set (operations inst) \<Longrightarrow> m \<in> set (machines op) \<Longrightarrow> m < num_machines inst"
  unfolding num_machines_def by (rule fold_max_Suc_mem) auto

lemma wf_instance_operation:
  assumes "wf_instance inst" and "op \<in> set (operations inst)"
  shows "job_id op < num_jobs inst" and "machines op \<noteq> []" and "0 \<le> duration op"
    and "operation_id op < num_operations inst"
proof -
  from assms(2) obtain job where job: "job \<in> set (jobs inst)" "op \<in> set job"
    by (auto simp: operations_def)
  then obtain j p where j: "j < length (jobs inst)" "jobs inst ! j = job"
    and p: "p < length job" "job ! p = op"
    by (auto simp: in_set_conv_nth)
  from assms(1) j p show "job_id op < num_jobs inst" "machines op \<noteq> []" "0 \<le> duration op"
    by (auto simp: wf_instance_def list_all_enumerate num_jobs_def)
  from assms(1) have ids: "map operation_id (operations inst) = [0..<num_operations inst]"
    by (simp add: wf_instance_def)
  from assms(2) have "operation_id op \<in> set (map operation_id (operations inst))" by simp
  with ids show "operation_id op < num_operations inst" by simp
qed


lemma wf_dispatcherD:
  assumes "wf_dispatcher d"
  shows "wf_instance (instance_d d)"
    and "length (schedule d) = num_machines (instance_d d)"
    and "length (machine_next_available_time d) = num_machines (instance_d d)"
    and "length (job_next_available_time d) = num_jobs (instance_d d)"
    and "distinct (unscheduled d)"
    and "\<And>op. op \<in> set (unscheduled d) \<Longrightarrow>
           op \<in> set (operations (instance_d d)) \<and> \<not> is_scheduled d op"
    and "\<And>op. op \<in> set (operations (instance_d d)) \<Longrightarrow>
           op \<in> set (unscheduled d) \<or> is_scheduled d op"
    and "\<And>m s. m < length (schedule d) \<Longrightarrow> s \<in> set (schedule d ! m) \<Longrightarrow>
           machine_id s = m \<and> end_time s \<le> machine_next_available_time d ! m
           \<and> job_id (operation s) < length (job_next_available_time d)
           \<and> end_time s \<le> job_next_available_time d ! job_id (operation s)"
  using assms unfolding wf_dispatcher_def list_all_enumerate by (auto simp: list_all_iff)

lemma wf_dispatcherI:
  assumes "wf_instance (instance_d d)"
    and "length (schedule d) = num_machines (instance_d d)"
    and "length (machine_next_available_time d) = num_machines (instance_d d)"
    and "length (job_next_available_time d) = num_jobs (instance_d d)"
    and "distinct (unscheduled d)"
    and "\<And>op. op \<in> set (unscheduled d) \<Longrightarrow>
           op \<in> set (operations (instance_d d)) \<and> \<not> is_scheduled d op"
    and "\<And>op. op \<in> set (operations (instance_d d)) \<Longrightarrow>
           op \<in> set (unscheduled d) \<or> is_scheduled d op"
    and "\<And>m s. m < length (schedule d) \<Longrightarrow> s \<in> set (schedule d ! m) \<Longrightarrow>
           machine_id s = m \<and> end_time s \<le> machine_next_available_time d ! m
           \<and> job_id (operation s) < length (job_next_available_time d)
           \<and> end_time s \<le> job_next_available_time d ! job_id (operation s)"
  shows "wf_dispatcher d"
  using assms unfolding wf_dispatcher_def list_all_enumerate by (auto simp: list_all_iff)

lemma wf_dispatcher_subscribers [simp]:
  "wf_dispatcher (d\<lparr>subscribers := subs\<rparr>) = wf_dispatcher d"
  by (simp add: wf_dispatcher_def is_scheduled_def scheduled_operations_def)

lemma wf_Dispatcher_init: "wf_instance inst \<Longrightarrow> wf_dispatcher (Dispatcher_init inst)"
proof -
  assume wf: "wf_instance inst"
  then have "map operation_id (operations inst) = [0..<num_operations inst]"
    by (simp add: wf_instance_def)
  then have "distinct (map operation_id (operations inst))" by simp
  then have "distinct (operations inst)" by (simp add: distinct_map)
  with wf show ?thesis
    unfolding wf_dispatcher_def list_all_enumerate
    by (auto simp: Dispatcher_init_def list_all_iff is_scheduled_def scheduled_operations_def)
qed


lemma earliest_start_time_Some:
  assumes "job_id op < length (job_next_available_time d)"
    and "m < length (machine_next_available_time d)"
  shows "earliest_start_time d op (Some m)
      = Inr (max (job_next_available_time d ! job_id op) (machine_next_available_time d ! m))"
  using assms by (simp add: earliest_start_time_def nth_err_def)

lemma mapE_nth_err:
  "\<forall>i\<in>set is. i < length xs \<Longrightarrow> mapE (nth_err xs) is = Inr (map (\<lambda>i. xs ! i) is)"
  by (induction "is") (auto simp: nth_err_def)

lemma fold_min_Min: "fold min ts (t::int) = Min (set (t # ts))"
proof (induction ts arbitrary: t)
  case Nil
  then show ?case by simp
next
  case (Cons a ts)
  have "fold min (a # ts) t = Min (insert (min a t) (set ts))"
    using Cons.IH[of "min a t"] by simp
  also have "\<dots> = Min (insert a (insert t (set ts)))"
    by (cases "set ts = {}") (auto simp: min.commute min.assoc)
  finally show ?case by (simp add: insert_commute)
qed

lemma earliest_start_time_None:
  assumes "job_id op < length (job_next_available_time d)"
    and "\<forall>m\<in>set (machines op). m < length (machine_next_available_time d)"
    and "machines op \<noteq> []"
  shows "earliest_start_time d op None
      = Inr (max (job_next_available_time d ! job_id op)
               (Min ((\<lambda>m. machine_next_available_time d ! m) ` set (machines op))))"
proof -
  from assms(3) obtain m ms where ms: "machines op = m # ms" by (cases "machines op") auto
  from assms(2) have "mapE (nth_err (machine_next_available_time d)) (machines op)
      = Inr (map (\<lambda>i. machine_next_available_time d ! i) (machines op))"
    by (rule mapE_nth_err)
  with assms(1) ms show ?thesis
    by (simp add: earliest_start_time_def nth_err_def fold_min_Min)
qed

lemma set_concat_list_update:
  "m < length sch \<Longrightarrow> set (concat (sch[m := sch ! m @ [s]])) = insert s (set (concat sch))"
proof (induction sch arbitrary: m)
  case Nil
  then show ?case by simp
next
  case (Cons row sch)
  then show ?case by (cases m) auto
qed

lemma Schedule_add_result:
  assumes "Schedule_add sch s = Inr sch'"
  shows "sch' = sch[machine_id s := sch ! machine_id s @ [s]]" and "machine_id s < length sch"
  using assms by (auto simp: Schedule_add_def split: if_splits)

lemma is_scheduled_apply_commit:
  assumes "apply_commit d s = Inr d1"
  shows "is_scheduled d1 x \<longleftrightarrow> x = operation s \<or> is_scheduled d x"
proof -
  from apply_commit_fields(5)[OF assms] have a: "Schedule_add (schedule d) s = Inr (schedule d1)" .
  have "set (concat (schedule d1)) = insert s (set (concat (schedule d)))"
    by (simp only: Schedule_add_result(1)[OF a]
        set_concat_list_update[OF Schedule_add_result(2)[OF a]])
  then have "set (scheduled_operations d1) = insert s (set (scheduled_operations d))"
    by (simp only: scheduled_operations_def)
  then show ?thesis by (auto simp: is_scheduled_def)
qed


lemma wf_apply_commit:
  assumes wf: "wf_dispatcher d" and op: "op \<in> set (operations (instance_d d))"
    and m: "m \<in> set (machines op)"
    and e: "earliest_start_time d op (Some m) = Inr e" and t: "e \<le> t"
    and a: "apply_commit d \<lparr>operation = op, start_time = t, machine_id = m\<rparr> = Inr d1"
  shows "wf_dispatcher d1"
proof (rule wf_dispatcherI)
  note W = wf_dispatcherD[OF wf]
  note A = apply_commit_fields[OF a]
  let ?s = "\<lparr>operation = op, start_time = t, machine_id = m\<rparr>"
  from machine_in_range[OF op m] W(2,3) have mr: "m < length (schedule d)"
    "m < length (machine_next_available_time d)" by simp_all
  from wf_instance_operation(1)[OF W(1) op] W(4)
  have jr: "job_id op < length (job_next_available_time d)" by simp
  from e earliest_start_time_Some[OF jr mr(2)]
  have ev: "e = max (job_next_available_time d ! job_id op) (machine_next_available_time d ! m)"
    by simp
  from wf_instance_operation(3)[OF W(1) op] have dur: "0 \<le> duration op" .
  have sch1: "schedule d1 = (schedule d)[m := schedule d ! m @ [?s]]"
    using Schedule_add_result(1)[OF A(5)] by simp
  show "wf_instance (instance_d d1)" using W(1) A(1) by simp
  show "length (schedule d1) = num_machines (instance_d d1)" using W(2) A(1) sch1 by simp
  show "length (machine_next_available_time d1) = num_machines (instance_d d1)"
    using W(3) A(1,6) by simp
  show "length (job_next_available_time d1) = num_jobs (instance_d d1)"
    using W(4) A(1,7) by simp
  show "distinct (unscheduled d1)" using W(5) A(3) by (simp add: distinct_removeAll)
  show "op' \<in> set (operations (instance_d d1)) \<and> \<not> is_scheduled d1 op'"
    if "op' \<in> set (unscheduled d1)" for op'
    using that W(6)[of op'] A(1,3) is_scheduled_apply_commit[OF a, of op'] by auto
  show "op' \<in> set (unscheduled d1) \<or> is_scheduled d1 op'"
    if "op' \<in> set (operations (instance_d d1))" for op'
    using that W(7)[of op'] A(1,3) is_scheduled_apply_commit[OF a, of op'] by auto
  show "machine_id s = m' \<and> end_time s \<le> machine_next_available_time d1 ! m'
           \<and> job_id (operation s) < length (job_next_available_time d1)
           \<and> end_time s \<le> job_next_available_time d1 ! job_id (operation s)"
    if m': "m' < length (schedule d1)" and s: "s \<in> set (schedule d1 ! m')" for m' s
  proof (cases "s = ?s \<and> m' = m")
    case True
    with mr jr A(6,7) show ?thesis by simp
  next
    case False
    with m' s sch1 mr(1) have old: "m' < length (schedule d)" "s \<in> set (schedule d ! m')"
      by (auto simp: nth_list_update split: if_splits)
    from W(8)[OF old] have o: "machine_id s = m'"
      "end_time s \<le> machine_next_available_time d ! m'"
      "job_id (operation s) < length (job_next_available_time d)"
      "end_time s \<le> job_next_available_time d ! job_id (operation s)" by simp_all
    have "end_time s \<le> machine_next_available_time d1 ! m'"
    proof (cases "m' = m")
      case True
      with o(2) ev t dur mr A(6) show ?thesis by (simp add: end_time_def)
    next
      case False
      with o(2) A(6) show ?thesis by simp
    qed
    moreover have "end_time s \<le> job_next_available_time d1 ! job_id (operation s)"
    proof (cases "job_id (operation s) = job_id op")
      case True
      with o(4) ev t dur jr A(7) show ?thesis by (simp add: end_time_def)
    next
      case False
      with o(4) A(7) show ?thesis by simp
    qed
    ultimately show ?thesis using o(1,3) A(7) by simp
  qed
qed

lemma commit_preserves_wf:
  assumes wf: "wf_dispatcher d" and op: "op \<in> set (operations (instance_d d))"
    and c: "commit d op m t = (None, d')"
  shows "wf_dispatcher d'"
proof -
  from commit_success[OF c] obtain e d1 where
    m: "m \<in> set (machines op)" and e: "earliest_start_time d op (Some m) = Inr e" "e \<le> t"
    and a: "apply_commit d \<lparr>operation = op, start_time = t, machine_id = m\<rparr> = Inr d1"
    and n: "notify \<lparr>operation = op, start_time = t, machine_id = m\<rparr> d1 = (None, d')"
    by blast
  from wf_apply_commit[OF wf op m e a] have "wf_dispatcher d1" .
  moreover from n have "d' = d1\<lparr>subscribers := subscribers d'\<rparr>"
    unfolding notify_def by (rule notify_from_engine[THEN conjunct1])
  ultimately show ?thesis by (metis wf_dispatcher_subscribers)
qed


section \<open>The earliest start time\<close>

text \<open>
  C1. For every well-formed engine state and every unscheduled operation,
  \<open>earliest_start_time(operation)\<close> with no machine chosen returns the maximum of the job's
  next available time and the minimum of \<open>machine_next_available_time\<close> over the
  operation's eligible machines; with an eligible machine chosen, that machine's entry
  takes the place of the minimum. A commit of the operation with a start time strictly
  below either value, on any machine, fails with ValidationError and leaves the state as
  it was.
\<close>

theorem earliest_start_time_is_feasibility_floor:
  assumes wf: "wf_dispatcher d" and op: "op \<in> set (unscheduled_operations d)"
  shows "earliest_start_time d op None
           = Inr (max (job_next_available_time d ! job_id op)
                    (Min ((\<lambda>m. machine_next_available_time d ! m) ` set (machines op))))
       \<and> (\<forall>m\<in>set (machines op).
             earliest_start_time d op (Some m)
               = Inr (max (job_next_available_time d ! job_id op)
                        (machine_next_available_time d ! m)))
       \<and> (\<forall>m t e. (earliest_start_time d op None = Inr e
                     \<or> earliest_start_time d op (Some m) = Inr e) \<and> t < e
             \<longrightarrow> commit d op m t = (Some ValidationError, d))"
proof -
  note W = wf_dispatcherD[OF wf]
  from op W(6)[of op] have opi: "op \<in> set (operations (instance_d d))"
    and ns: "\<not> is_scheduled d op"
    by (simp_all add: unscheduled_operations_def)
  from wf_instance_operation(1)[OF W(1) opi] W(4)
  have jr: "job_id op < length (job_next_available_time d)" by simp
  have mr: "\<forall>m\<in>set (machines op). m < length (machine_next_available_time d)"
    using machine_in_range[OF opi] W(3) by simp
  note ne = wf_instance_operation(2)[OF W(1) opi]
  note N = earliest_start_time_None[OF jr mr ne]
  have S: "\<forall>m\<in>set (machines op).
             earliest_start_time d op (Some m)
               = Inr (max (job_next_available_time d ! job_id op)
                        (machine_next_available_time d ! m))"
    using earliest_start_time_Some[OF jr] mr by simp
  have "commit d op m t = (Some ValidationError, d)"
    if h: "(earliest_start_time d op None = Inr e \<or> earliest_start_time d op (Some m) = Inr e) \<and> t < e"
    for m t e
  proof (cases "m \<in> set (machines op)")
    case False
    then show ?thesis by (simp add: commit_def)
  next
    case True
    define lo where "lo = Min ((\<lambda>m. machine_next_available_time d ! m) ` set (machines op))"
    have le: "lo \<le> machine_next_available_time d ! m"
      unfolding lo_def using True by (intro Min_le) auto
    from S True have Sm: "earliest_start_time d op (Some m)
               = Inr (max (job_next_available_time d ! job_id op)
                        (machine_next_available_time d ! m))" by blast
    from h N Sm have "e = max (job_next_available_time d ! job_id op) lo
        \<or> e = max (job_next_available_time d ! job_id op) (machine_next_available_time d ! m)"
      by (auto simp: lo_def)
    with h le have "t < max (job_next_available_time d ! job_id op)
                        (machine_next_available_time d ! m)"
      by linarith
    with True ns Sm show ?thesis by (simp add: commit_def)
  qed
  with N S show ?thesis by blast
qed

theorem earliest_start_time_is_feasibility_floor_witness:
  "wf_dispatcher example_after_op00
   \<and> op01 \<in> set (unscheduled_operations example_after_op00)
   \<and> earliest_start_time example_after_op00 op01 None = Inr 3
   \<and> earliest_start_time example_after_op00 op01 (Some 1) = Inr 3
   \<and> commit example_after_op00 op01 1 2 = (Some ValidationError, example_after_op00)"
proof -
  have h1: "wf_dispatcher example_after_op00" by code_simp
  have h2: "op01 \<in> set (unscheduled_operations example_after_op00)" by code_simp
  have v: "earliest_start_time example_after_op00 op01 None = Inr 3"
    "earliest_start_time example_after_op00 op01 (Some 1) = Inr 3" by code_simp+
  from earliest_start_time_is_feasibility_floor[OF h1 h2] v(1)
  have "commit example_after_op00 op01 1 2 = (Some ValidationError, example_after_op00)"
    by (elim conjE allE[of _ 1] allE[of _ 2] allE[of _ 3]) simp
  with h1 h2 v show ?thesis by simp
qed

section \<open>The counters of the completion observer\<close>

lemma shifted_column_table:
  assumes "shifted a a' f" and "a = map (\<lambda>m. [c m]) [0..<n]" and "\<And>m. m < n \<Longrightarrow> c' m = c m + f m"
  shows "a' = map (\<lambda>m. [c' m]) [0..<n]"
proof (rule nth_equalityI)
  from assms(1,2) show "length a' = length (map (\<lambda>m. [c' m]) [0..<n])"
    by (simp add: shifted_def)
next
  fix i assume "i < length a'"
  with assms(1,2) have i: "i < n" by (simp add: shifted_def)
  with assms(1,2) have "hd (a' ! i) = c i + f i" "tl (a' ! i) = []" "a' ! i \<noteq> []"
    by (auto simp: shifted_def)
  then have "a' ! i = [c i + f i]" by (cases "a' ! i") auto
  with i assms(3) show "a' ! i = map (\<lambda>m. [c' m]) [0..<n] ! i" by simp
qed

lemma rewritten_column_table:
  assumes "length a' = length a" and "a = map (\<lambda>m. [g m]) [0..<n]"
    and "\<And>m. m < n \<Longrightarrow> a' ! m = (if m \<in> S then v m # tl (a ! m) else a ! m)"
    and "\<And>m. m < n \<Longrightarrow> g' m = (if m \<in> S then v m else g m)"
  shows "a' = map (\<lambda>m. [g' m]) [0..<n]"
proof (rule nth_equalityI)
  from assms(1,2) show "length a' = length (map (\<lambda>m. [g' m]) [0..<n])" by simp
next
  fix i assume "i < length a'"
  with assms(1,2) have i: "i < n" by simp
  with assms(2) have "a ! i = [g i]" by simp
  with assms(3)[OF i] assms(4)[OF i] i show "a' ! i = map (\<lambda>m. [g' m]) [0..<n] ! i" by simp
qed

lemma IsCompletedObserver_update_blocks:
  assumes "IsCompletedObserver_update d ob sop = Inr ob'"
  obtains ob1 ob2 where "update_operations_block d ob = Inr ob1"
    and "update_machines_block sop ob1 = Inr ob2" and "update_jobs_block sop ob2 = Inr ob'"
  using assms by (auto simp: IsCompletedObserver_update_def split: sum.splits)

lemma IsCompletedObserver_update_has_feature:
  assumes "IsCompletedObserver_update d ob sop = Inr ob'"
  shows "has_feature (features ob') ft = has_feature (features ob) ft"
proof -
  from assms obtain ob1 ob2 where b: "update_operations_block d ob = Inr ob1"
    "update_machines_block sop ob1 = Inr ob2" "update_jobs_block sop ob2 = Inr ob'"
    by (rule IsCompletedObserver_update_blocks)
  from update_operations_block_frame(3)[OF b(1)] update_machines_block_frame(2)[OF b(2)]
    update_jobs_block_frame(2)[OF b(3)]
  show ?thesis by simp
qed

lemma IsCompletedObserver_update_machines:
  assumes "IsCompletedObserver_update d ob sop = Inr ob'" and "has_feature (features ob) MACHINES"
  shows "shifted (remaining_ops_per_machine ob) (remaining_ops_per_machine ob')
           (\<lambda>m. if m \<in> set (machines (operation sop)) then - 1 else 0)"
    and "rows_ok (remaining_ops_per_machine ob) (machines (operation sop))"
    and "\<exists>a a'. feature (features ob) MACHINES = Inr a \<and> feature (features ob') MACHINES = Inr a'
           \<and> length a' = length a \<and> rows_ok a (machines (operation sop))
           \<and> (\<forall>m<length a. a' ! m =
                 (if m \<in> set (machines (operation sop))
                  then of_bool_int (hd (remaining_ops_per_machine ob' ! m) = 0) # tl (a ! m)
                  else a ! m))"
proof -
  from assms(1) obtain ob1 ob2 where b: "update_operations_block d ob = Inr ob1"
    "update_machines_block sop ob1 = Inr ob2" "update_jobs_block sop ob2 = Inr ob'"
    by (rule IsCompletedObserver_update_blocks)
  note F1 = update_operations_block_frame[OF b(1)]
  from assms(2) F1(3) have h1: "has_feature (features ob1) MACHINES" by simp
  note E = update_machines_block_effect[OF b(2) h1]
  note F3 = update_jobs_block_frame[OF b(3)]
  from E(1) F1(1) F3(1)
  show "shifted (remaining_ops_per_machine ob) (remaining_ops_per_machine ob')
           (\<lambda>m. if m \<in> set (machines (operation sop)) then - 1 else 0)" by simp
  from E(2) F1(1) show "rows_ok (remaining_ops_per_machine ob) (machines (operation sop))" by simp
  from E(3) obtain a a' where "feature (features ob1) MACHINES = Inr a"
    "feature (features ob2) MACHINES = Inr a'" "length a' = length a"
    "rows_ok a (machines (operation sop))"
    "\<forall>m<length a. a' ! m =
                 (if m \<in> set (machines (operation sop))
                  then of_bool_int (hd (remaining_ops_per_machine ob2 ! m) = 0) # tl (a ! m)
                  else a ! m)" by blast
  with F1(4)[of MACHINES] F3(3)[of MACHINES] F3(1)
  have "feature (features ob) MACHINES = Inr a \<and> feature (features ob') MACHINES = Inr a'
           \<and> length a' = length a \<and> rows_ok a (machines (operation sop))
           \<and> (\<forall>m<length a. a' ! m =
                 (if m \<in> set (machines (operation sop))
                  then of_bool_int (hd (remaining_ops_per_machine ob' ! m) = 0) # tl (a ! m)
                  else a ! m))" by simp
  then show "\<exists>a a'. feature (features ob) MACHINES = Inr a \<and> feature (features ob') MACHINES = Inr a'
           \<and> length a' = length a \<and> rows_ok a (machines (operation sop))
           \<and> (\<forall>m<length a. a' ! m =
                 (if m \<in> set (machines (operation sop))
                  then of_bool_int (hd (remaining_ops_per_machine ob' ! m) = 0) # tl (a ! m)
                  else a ! m))" by blast
qed

lemma IsCompletedObserver_update_jobs:
  assumes "IsCompletedObserver_update d ob sop = Inr ob'" and "has_feature (features ob) JOBS"
  shows "shifted (remaining_ops_per_job ob) (remaining_ops_per_job ob')
           (\<lambda>j. if j = job_id (operation sop) then - 1 else 0)"
    and "\<exists>a a'. feature (features ob) JOBS = Inr a \<and> feature (features ob') JOBS = Inr a'
           \<and> length a' = length a
           \<and> (\<forall>j<length a. a' ! j =
                 (if j = job_id (operation sop)
                  then of_bool_int (hd (remaining_ops_per_job ob' ! j) = 0) # tl (a ! j)
                  else a ! j))"
proof -
  from assms(1) obtain ob1 ob2 where b: "update_operations_block d ob = Inr ob1"
    "update_machines_block sop ob1 = Inr ob2" "update_jobs_block sop ob2 = Inr ob'"
    by (rule IsCompletedObserver_update_blocks)
  note F1 = update_operations_block_frame[OF b(1)]
  note F2 = update_machines_block_frame[OF b(2)]
  from assms(2) F1(3) F2(2) have h2: "has_feature (features ob2) JOBS" by simp
  note E = update_jobs_block_effect[OF b(3) h2]
  from E(1) F1(2) F2(1)
  show "shifted (remaining_ops_per_job ob) (remaining_ops_per_job ob')
           (\<lambda>j. if j = job_id (operation sop) then - 1 else 0)" by simp
  from E(4) obtain a a' where "feature (features ob2) JOBS = Inr a"
    "feature (features ob') JOBS = Inr a'" "length a' = length a"
    "\<forall>j<length a. a' ! j =
                 (if j = job_id (operation sop)
                  then of_bool_int (hd (remaining_ops_per_job ob' ! j) = 0) # tl (a ! j)
                  else a ! j)" by blast
  with F1(4)[of JOBS] F2(3)[of JOBS]
  have "feature (features ob) JOBS = Inr a \<and> feature (features ob') JOBS = Inr a'
           \<and> length a' = length a
           \<and> (\<forall>j<length a. a' ! j =
                 (if j = job_id (operation sop)
                  then of_bool_int (hd (remaining_ops_per_job ob' ! j) = 0) # tl (a ! j)
                  else a ! j))" by simp
  then show "\<exists>a a'. feature (features ob) JOBS = Inr a \<and> feature (features ob') JOBS = Inr a'
           \<and> length a' = length a
           \<and> (\<forall>j<length a. a' ! j =
                 (if j = job_id (operation sop)
                  then of_bool_int (hd (remaining_ops_per_job ob' ! j) = 0) # tl (a ! j)
                  else a ! j))" by blast
qed

lemma scan_machine_removeAll_le:
  "scan_machine (removeAll op ops) m \<le> scan_machine ops m"
  by (induction ops) (auto simp: scan_machine_def)

lemma scan_job_removeAll_le:
  "scan_job (removeAll op ops) j \<le> scan_job ops j"
  by (induction ops) (auto simp: scan_job_def)

lemma IsCompletedObserver_step:
  assumes upd: "IsCompletedObserver_update dm ob sop = Inr ob'"
    and inst: "instance_d d1 = instance_d d"
    and uns: "unscheduled d1 = removeAll (operation sop) (unscheduled d)"
    and dist: "distinct (unscheduled d)" and mem: "operation sop \<in> set (unscheduled d)"
    and cs: "counts_scan d ob" and cm: "completion_marks d0 d ob"
    and mono1: "\<And>m. scan_machine (unscheduled d) m \<le> scan_machine (unscheduled d0) m"
    and mono2: "\<And>j. scan_job (unscheduled d) j \<le> scan_job (unscheduled d0) j"
  shows "counts_scan d1 ob'" and "completion_marks d0 d1 ob'"
proof -
  note hf = IsCompletedObserver_update_has_feature[OF upd]
  let ?op = "operation sop"
  have M: "remaining_ops_per_machine ob' = scan_table_machines d1
      \<and> feature (features ob') MACHINES =
           Inr (map (\<lambda>m. [of_bool_int (scan_machine (unscheduled_operations d1) m = 0
                                      \<and> 0 < scan_machine (unscheduled_operations d0) m)])
                  [0..<num_machines (instance_d d1)])"
    if h: "has_feature (features ob) MACHINES"
  proof -
    note U = IsCompletedObserver_update_machines[OF upd h]
    from cs h have c: "remaining_ops_per_machine ob
        = map (\<lambda>m. [scan_machine (unscheduled d) m]) [0..<num_machines (instance_d d)]"
      by (simp add: counts_scan_def scan_table_machines_def unscheduled_operations_def)
    have c': "remaining_ops_per_machine ob'
        = map (\<lambda>m. [scan_machine (unscheduled d1) m]) [0..<num_machines (instance_d d)]"
      by (rule shifted_column_table[OF U(1) c])
         (simp add: uns scan_machine_removeAll[OF dist mem])
    from U(3) obtain a a' where a: "feature (features ob) MACHINES = Inr a"
      "feature (features ob') MACHINES = Inr a'" "length a' = length a"
      "\<forall>m<length a. a' ! m =
                 (if m \<in> set (machines ?op)
                  then of_bool_int (hd (remaining_ops_per_machine ob' ! m) = 0) # tl (a ! m)
                  else a ! m)" by blast
    from cm h a(1) have av: "a = map (\<lambda>m. [of_bool_int (scan_machine (unscheduled d) m = 0
                                      \<and> 0 < scan_machine (unscheduled d0) m)])
                  [0..<num_machines (instance_d d)]"
      by (simp add: completion_marks_def unscheduled_operations_def)
    have "a' = map (\<lambda>m. [of_bool_int (scan_machine (unscheduled d1) m = 0
                                      \<and> 0 < scan_machine (unscheduled d0) m)])
                  [0..<num_machines (instance_d d)]"
    proof (rule rewritten_column_table[OF a(3) av,
          where S = "set (machines ?op)"
            and v = "\<lambda>m. of_bool_int (hd (remaining_ops_per_machine ob' ! m) = 0)"])
      fix m assume m: "m < num_machines (instance_d d)"
      with a(4) av show "a' ! m = (if m \<in> set (machines ?op)
           then of_bool_int (hd (remaining_ops_per_machine ob' ! m) = 0) # tl (a ! m) else a ! m)"
        by simp
      show "of_bool_int (scan_machine (unscheduled d1) m = 0 \<and> 0 < scan_machine (unscheduled d0) m)
          = (if m \<in> set (machines ?op)
             then of_bool_int (hd (remaining_ops_per_machine ob' ! m) = 0)
             else of_bool_int (scan_machine (unscheduled d) m = 0
                                \<and> 0 < scan_machine (unscheduled d0) m))"
      proof (cases "m \<in> set (machines ?op)")
        case True
        from scan_machine_pos[OF mem True] mono1[of m]
        have "0 < scan_machine (unscheduled d0) m" by simp
        with True m c' show ?thesis by simp
      next
        case False
        then show ?thesis by (simp add: uns scan_machine_removeAll[OF dist mem])
      qed
    qed
    with c' a(2) show ?thesis
      by (simp add: scan_table_machines_def unscheduled_operations_def inst)
  qed
  have J: "remaining_ops_per_job ob' = scan_table_jobs d1
      \<and> feature (features ob') JOBS =
           Inr (map (\<lambda>j. [of_bool_int (scan_job (unscheduled_operations d1) j = 0
                                      \<and> 0 < scan_job (unscheduled_operations d0) j)])
                  [0..<num_jobs (instance_d d1)])"
    if h: "has_feature (features ob) JOBS"
  proof -
    note U = IsCompletedObserver_update_jobs[OF upd h]
    from cs h have c: "remaining_ops_per_job ob
        = map (\<lambda>j. [scan_job (unscheduled d) j]) [0..<num_jobs (instance_d d)]"
      by (simp add: counts_scan_def scan_table_jobs_def unscheduled_operations_def)
    have c': "remaining_ops_per_job ob'
        = map (\<lambda>j. [scan_job (unscheduled d1) j]) [0..<num_jobs (instance_d d)]"
      by (rule shifted_column_table[OF U(1) c])
         (auto simp add: uns scan_job_removeAll[OF dist mem])
    from U(2) obtain a a' where a: "feature (features ob) JOBS = Inr a"
      "feature (features ob') JOBS = Inr a'" "length a' = length a"
      "\<forall>j<length a. a' ! j =
                 (if j = job_id ?op
                  then of_bool_int (hd (remaining_ops_per_job ob' ! j) = 0) # tl (a ! j)
                  else a ! j)" by blast
    from cm h a(1) have av: "a = map (\<lambda>j. [of_bool_int (scan_job (unscheduled d) j = 0
                                      \<and> 0 < scan_job (unscheduled d0) j)])
                  [0..<num_jobs (instance_d d)]"
      by (simp add: completion_marks_def unscheduled_operations_def)
    have "a' = map (\<lambda>j. [of_bool_int (scan_job (unscheduled d1) j = 0
                                      \<and> 0 < scan_job (unscheduled d0) j)])
                  [0..<num_jobs (instance_d d)]"
    proof (rule rewritten_column_table[OF a(3) av,
          where S = "{job_id ?op}"
            and v = "\<lambda>j. of_bool_int (hd (remaining_ops_per_job ob' ! j) = 0)"])
      fix j assume j: "j < num_jobs (instance_d d)"
      with a(4) av show "a' ! j = (if j \<in> {job_id ?op}
           then of_bool_int (hd (remaining_ops_per_job ob' ! j) = 0) # tl (a ! j) else a ! j)"
        by simp
      show "of_bool_int (scan_job (unscheduled d1) j = 0 \<and> 0 < scan_job (unscheduled d0) j)
          = (if j \<in> {job_id ?op}
             then of_bool_int (hd (remaining_ops_per_job ob' ! j) = 0)
             else of_bool_int (scan_job (unscheduled d) j = 0
                                \<and> 0 < scan_job (unscheduled d0) j))"
      proof (cases "j = job_id ?op")
        case True
        from scan_job_pos[OF mem] mono2[of j] True
        have "0 < scan_job (unscheduled d0) j" by simp
        with True j c' show ?thesis by simp
      next
        case False
        then show ?thesis by (auto simp add: uns scan_job_removeAll[OF dist mem])
      qed
    qed
    with c' a(2) show ?thesis
      by (simp add: scan_table_jobs_def unscheduled_operations_def inst)
  qed
  from M J hf show "counts_scan d1 ob'" by (simp add: counts_scan_def)
  from M J hf show "completion_marks d0 d1 ob'" by (simp add: completion_marks_def)
qed

lemma commit_updates_IsCompletedObserver:
  assumes c: "commit d op m t = (None, d')"
    and i: "i < length (subscribers d)"
    and ob: "subscribers d ! i = FeatureObs (IsCompletedObs ob)"
  shows "\<exists>dm ob'. subscribers d' ! i = FeatureObs (IsCompletedObs ob')
           \<and> IsCompletedObserver_update dm ob \<lparr>operation = op, start_time = t, machine_id = m\<rparr>
                = Inr ob'"
    and "instance_d d' = instance_d d"
    and "unscheduled d' = removeAll op (unscheduled d)"
    and "length (subscribers d') = length (subscribers d)"
proof -
  let ?s = "\<lparr>operation = op, start_time = t, machine_id = m\<rparr>"
  from commit_success(4)[OF c] obtain d1 where a: "apply_commit d ?s = Inr d1"
    and n: "notify_from (length (subscribers d1)) 0 ?s d1 = (None, d')"
    by (auto simp: notify_def)
  note A = apply_commit_fields[OF a]
  from notify_from_engine[OF n] have e: "d' = d1\<lparr>subscribers := subscribers d'\<rparr>"
    and l: "length (subscribers d') = length (subscribers d1)" by simp_all
  from e A(1) show "instance_d d' = instance_d d" by (metis Dispatcher.select_convs(1) Dispatcher.surjective Dispatcher.update_convs(7))
  from e A(3) show "unscheduled d' = removeAll op (unscheduled d)"
    by (metis Dispatcher.select_convs(5) Dispatcher.surjective Dispatcher.update_convs(7) ScheduledOperation.select_convs(1))
  from l A(2) show "length (subscribers d') = length (subscribers d)" by simp
  from notify_from_nth[OF n] i A(2) obtain subs where
    "observer_update (d1\<lparr>subscribers := subs\<rparr>) (subscribers d1 ! i) ?s = Inr (subscribers d' ! i)"
    by auto
  with ob A(2) show "\<exists>dm ob'. subscribers d' ! i = FeatureObs (IsCompletedObs ob')
           \<and> IsCompletedObserver_update dm ob ?s = Inr ob'"
    by (cases "IsCompletedObserver_update (d1\<lparr>subscribers := subs\<rparr>) ob ?s")
       (auto intro: sym)
qed

lemma commits_keep_counts:
  assumes "commits d cs = (None, d')"
    and "wf_dispatcher d"
    and "list_all (\<lambda>c. fst c \<in> set (operations (instance_d d))) cs"
    and "i < length (subscribers d)"
    and "subscribers d ! i = FeatureObs (IsCompletedObs ob)"
    and "counts_scan d ob" and "completion_marks d0 d ob"
    and "\<And>m. scan_machine (unscheduled d) m \<le> scan_machine (unscheduled d0) m"
    and "\<And>j. scan_job (unscheduled d) j \<le> scan_job (unscheduled d0) j"
  shows "\<exists>ob'. subscribers d' ! i = FeatureObs (IsCompletedObs ob')
           \<and> counts_scan d' ob' \<and> completion_marks d0 d' ob'"
  using assms
proof (induction cs arbitrary: d ob)
  case Nil
  then show ?case by simp
next
  case (Cons c cs)
  obtain op m t where c: "c = (op, m, t)" by (cases c) auto
  from Cons.prems(1) c obtain d1 where c1: "commit d op m t = (None, d1)"
    and rest: "commits d1 cs = (None, d')"
    by (auto split: prod.splits option.splits)
  from Cons.prems(3) c have opi: "op \<in> set (operations (instance_d d))"
    and others: "list_all (\<lambda>c. fst c \<in> set (operations (instance_d d))) cs" by simp_all
  note W = wf_dispatcherD[OF Cons.prems(2)]
  from commit_success(2)[OF c1] W(7)[OF opi] have mem: "op \<in> set (unscheduled d)" by simp
  note U = commit_updates_IsCompletedObserver[OF c1 Cons.prems(4,5)]
  from U(1) obtain dm ob1 where ob1: "subscribers d1 ! i = FeatureObs (IsCompletedObs ob1)"
    and upd: "IsCompletedObserver_update dm ob \<lparr>operation = op, start_time = t, machine_id = m\<rparr>
                = Inr ob1" by blast
  have uns: "unscheduled d1 = removeAll (operation \<lparr>operation = op, start_time = t, machine_id = m\<rparr>) (unscheduled d)"
    using U(3) by simp
  have mem': "operation \<lparr>operation = op, start_time = t, machine_id = m\<rparr> \<in> set (unscheduled d)"
    using mem by simp
  note S = IsCompletedObserver_step[OF upd U(2) uns W(5) mem' Cons.prems(6,7,8,9)]
  have wf1: "wf_dispatcher d1" by (rule commit_preserves_wf[OF Cons.prems(2) opi c1])
  have m1: "scan_machine (unscheduled d1) k \<le> scan_machine (unscheduled d0) k" for k
    using scan_machine_removeAll_le[of op "unscheduled d" k] Cons.prems(8)[of k] U(3) by simp
  have m2: "scan_job (unscheduled d1) k \<le> scan_job (unscheduled d0) k" for k
    using scan_job_removeAll_le[of op "unscheduled d" k] Cons.prems(9)[of k] U(3) by simp
  from others U(2) have others1: "list_all (\<lambda>c. fst c \<in> set (operations (instance_d d1))) cs"
    by simp
  from Cons.prems(4) U(4) have i1: "i < length (subscribers d1)" by simp
  show ?case by (rule Cons.IH[OF rest wf1 others1 i1 ob1 S m1 m2])
qed

lemma unmarked_completion_marks:
  "unmarked (instance_d d) ob \<Longrightarrow> completion_marks d d ob"
proof -
  have "replicate n [0::int] = map (\<lambda>m. [of_bool_int (f m = (0::int) \<and> 0 < f m)]) [0..<n]" for n f
    by (rule nth_equalityI) (auto simp: of_bool_int_def)
  then show "unmarked (instance_d d) ob \<Longrightarrow> completion_marks d d ob"
    by (simp add: unmarked_def completion_marks_def zeros_def)
qed

lemma commits_instance:
  "commits d cs = (None, d') \<Longrightarrow> instance_d d' = instance_d d"
proof (induction cs arbitrary: d)
  case Nil
  then show ?case by simp
next
  case (Cons c cs)
  then obtain d1 where c1: "commit d (fst c) (fst (snd c)) (snd (snd c)) = (None, d1)"
    and rest: "commits d1 cs = (None, d')"
    by (auto split: prod.splits option.splits)
  have "instance_d d1 = instance_d d"
  proof -
    from commit_success(4)[OF c1] obtain d2 where
      a: "apply_commit d \<lparr>operation = fst c, start_time = snd (snd c), machine_id = fst (snd c)\<rparr> = Inr d2"
      and n: "notify_from (length (subscribers d2)) 0
                \<lparr>operation = fst c, start_time = snd (snd c), machine_id = fst (snd c)\<rparr> d2 = (None, d1)"
      by (auto simp: notify_def)
    from notify_from_engine[OF n] have "instance_d d1 = instance_d d2"
      by (metis Dispatcher.select_convs(1) Dispatcher.surjective Dispatcher.update_convs(7))
    with apply_commit_fields(1)[OF a] show ?thesis by simp
  qed
  with Cons.IH[OF rest] show ?case by simp
qed


text \<open>
  What \<open>update\<close> keeps of the invariant of section 4.4. Let an \<open>IsCompletedObserver\<close> be
  subscribed to a well-formed dispatcher, with counters that hold the full-scan counts
  and with machine and job tables that are all zero (as \<open>__init__\<close> and \<open>reset\<close> leave it
  when it counts for itself). After any sequence of successful commits of operations of
  the instance, each tracked per-machine and per-job counter equals the count of a full
  scan of the unscheduled operations, and a machine or job that had at least one
  remaining operation at the start is marked 1 exactly when its counter is zero, and 0
  otherwise. The rows of the other machines and jobs are the subject of the theorem
  after this one.
\<close>

theorem counters_match_full_scan_after_commits:
  assumes "wf_dispatcher d0"
    and "i < length (subscribers d0)"
    and "subscribers d0 ! i = FeatureObs (IsCompletedObs ob0)"
    and "counts_scan d0 ob0"
    and "unmarked (instance_d d0) ob0"
    and "list_all (\<lambda>c. fst c \<in> set (operations (instance_d d0))) cs"
    and "commits d0 cs = (None, d)"
  shows "\<exists>ob. subscribers d ! i = FeatureObs (IsCompletedObs ob)
     \<and> (has_feature (features ob) MACHINES \<longrightarrow>
          remaining_ops_per_machine ob = scan_table_machines d
          \<and> (\<exists>a. feature (features ob) MACHINES = Inr a
               \<and> (\<forall>m<num_machines (instance_d d).
                     0 < scan_machine (unscheduled_operations d0) m \<longrightarrow>
                     get0 a m = Inr (of_bool_int (get0 (remaining_ops_per_machine ob) m = Inr 0)))))
     \<and> (has_feature (features ob) JOBS \<longrightarrow>
          remaining_ops_per_job ob = scan_table_jobs d
          \<and> (\<exists>a. feature (features ob) JOBS = Inr a
               \<and> (\<forall>j<num_jobs (instance_d d).
                     0 < scan_job (unscheduled_operations d0) j \<longrightarrow>
                     get0 a j = Inr (of_bool_int (get0 (remaining_ops_per_job ob) j = Inr 0)))))"
proof -
  from commits_keep_counts[OF assms(7,1,6,2,3,4) unmarked_completion_marks[OF assms(5)]]
  obtain ob where ob: "subscribers d ! i = FeatureObs (IsCompletedObs ob)"
    "counts_scan d ob" "completion_marks d0 d ob" by auto
  have "remaining_ops_per_machine ob = scan_table_machines d
          \<and> (\<exists>a. feature (features ob) MACHINES = Inr a
               \<and> (\<forall>m<num_machines (instance_d d).
                     0 < scan_machine (unscheduled_operations d0) m \<longrightarrow>
                     get0 a m = Inr (of_bool_int (get0 (remaining_ops_per_machine ob) m = Inr 0))))"
    if "has_feature (features ob) MACHINES"
    using that ob(2,3)
    by (auto simp: counts_scan_def completion_marks_def scan_table_machines_def get0_def)
  moreover have "remaining_ops_per_job ob = scan_table_jobs d
          \<and> (\<exists>a. feature (features ob) JOBS = Inr a
               \<and> (\<forall>j<num_jobs (instance_d d).
                     0 < scan_job (unscheduled_operations d0) j \<longrightarrow>
                     get0 a j = Inr (of_bool_int (get0 (remaining_ops_per_job ob) j = Inr 0))))"
    if "has_feature (features ob) JOBS"
    using that ob(2,3)
    by (auto simp: counts_scan_def completion_marks_def scan_table_jobs_def get0_def)
  ultimately show ?thesis using ob(1) by blast
qed

theorem counters_match_full_scan_after_commits_witness:
  "wf_dispatcher example_observed
   \<and> 0 < length (subscribers example_observed)
   \<and> subscribers example_observed ! 0 = FeatureObs (IsCompletedObs example_observer)
   \<and> counts_scan example_observed example_observer
   \<and> unmarked (instance_d example_observed) example_observer
   \<and> list_all (\<lambda>c. fst c \<in> set (operations (instance_d example_observed))) example_commits
   \<and> fst (commits example_observed example_commits) = None
   \<and> (\<exists>ob. subscribers (snd (commits example_observed example_commits)) ! 0
               = FeatureObs (IsCompletedObs ob)
          \<and> remaining_ops_per_machine ob
               = scan_table_machines (snd (commits example_observed example_commits))
          \<and> remaining_ops_per_job ob
               = scan_table_jobs (snd (commits example_observed example_commits))
          \<and> feature (features ob) MACHINES = Inr [[1], [1]]
          \<and> feature (features ob) JOBS = Inr [[1], [1]])"
proof -
  have h1: "wf_dispatcher example_observed" by code_simp
  have h2: "0 < length (subscribers example_observed)" by code_simp
  have h3: "subscribers example_observed ! 0 = FeatureObs (IsCompletedObs example_observer)"
    by code_simp
  have h4: "counts_scan example_observed example_observer" by code_simp
  have h5: "unmarked (instance_d example_observed) example_observer" by code_simp
  have h6: "list_all (\<lambda>c. fst c \<in> set (operations (instance_d example_observed))) example_commits"
    by code_simp
  have h7: "fst (commits example_observed example_commits) = None" by code_simp
  then have h7': "commits example_observed example_commits
                    = (None, snd (commits example_observed example_commits))"
    by (simp add: prod_eq_iff)
  have v: "case subscribers (snd (commits example_observed example_commits)) ! 0 of
             FeatureObs (IsCompletedObs ob) \<Rightarrow>
               has_feature (features ob) MACHINES \<and> has_feature (features ob) JOBS
               \<and> feature (features ob) MACHINES = Inr [[1], [1]]
               \<and> feature (features ob) JOBS = Inr [[1], [1]]
           | _ \<Rightarrow> False"
    by code_simp
  from counters_match_full_scan_after_commits[OF h1 h2 h3 h4 h5 h6 h7'] v
  have "\<exists>ob. subscribers (snd (commits example_observed example_commits)) ! 0
               = FeatureObs (IsCompletedObs ob)
          \<and> remaining_ops_per_machine ob
               = scan_table_machines (snd (commits example_observed example_commits))
          \<and> remaining_ops_per_job ob
               = scan_table_jobs (snd (commits example_observed example_commits))
          \<and> feature (features ob) MACHINES = Inr [[1], [1]]
          \<and> feature (features ob) JOBS = Inr [[1], [1]]"
    by auto
  with h1 h2 h3 h4 h5 h6 h7 show ?thesis by blast
qed


text \<open>
  C3. The code does not mark a machine or job whose counter is zero when the observer is
  initialised: \<open>initialize_features\<close> sets the counters and never the machine and job
  tables, and \<open>update\<close> writes the rows of the committed operation's machines and job
  only. In the scenario of section 8, an \<open>IsCompletedObserver\<close> of machines and jobs is
  constructed after machine 0 and job 1 have run all their operations: its counters are
  those of a full scan, 0 for machine 0 and for job 1, and both are marked 0. After the
  last operation is committed every counter is 0, equal to the full scan, and machine 0
  and job 1 are still marked 0.
\<close>

theorem completed_before_subscription_stays_unmarked:
  "IsCompletedObserver_init example_machine0_done (ManyTypes [MACHINES, JOBS]) True
     = Inr (example_late_observed,
            \<lparr>features = [(MACHINES, [[0], [0]]), (JOBS, [[0], [0]])],
             remaining_ops_per_machine = [[0], [1]],
             remaining_ops_per_job = [[1], [0]]\<rparr>)
   \<and> scan_table_machines example_late_observed = [[0], [1]]
   \<and> scan_table_jobs example_late_observed = [[1], [0]]
   \<and> wf_dispatcher example_late_observed
   \<and> fst (commits example_late_observed [(op01, 1, 4)]) = None
   \<and> subscribers example_late_final ! 0
       = FeatureObs (IsCompletedObs
           \<lparr>features = [(MACHINES, [[0], [1]]), (JOBS, [[1], [0]])],
            remaining_ops_per_machine = [[0], [0]],
            remaining_ops_per_job = [[0], [0]]\<rparr>)
   \<and> scan_table_machines example_late_final = [[0], [0]]
   \<and> scan_table_jobs example_late_final = [[0], [0]]
   \<and> get0 [[0], [0]] 0 = Inr 0
   \<and> cell [(MACHINES, [[0], [1]]), (JOBS, [[1], [0]])] MACHINES 0 = Inr 0
   \<and> get0 [[0], [0]] 1 = Inr 0
   \<and> cell [(MACHINES, [[0], [1]]), (JOBS, [[1], [0]])] JOBS 1 = Inr 0"
  by code_simp

section \<open>The machines an update touches\<close>

lemma IsCompletedObserver_update_machine_id:
  "IsCompletedObserver_update d ob (sop\<lparr>machine_id := k\<rparr>) = IsCompletedObserver_update d ob sop"
proof -
  have "update_machines_block (sop\<lparr>machine_id := k\<rparr>) = update_machines_block sop"
    by (rule ext) (simp add: update_machines_block_def cong: sum.case_cong)
  moreover have "update_jobs_block (sop\<lparr>machine_id := k\<rparr>) = update_jobs_block sop"
    by (rule ext) (simp add: update_jobs_block_def cong: sum.case_cong)
  ultimately show ?thesis by (simp only: IsCompletedObserver_update_def)
qed


text \<open>
  C10. When \<open>IsCompletedObserver.update\<close> succeeds on an observer that tracks machines,
  its result does not depend on the machine the operation was assigned to; the counter
  of every machine in the operation's list of eligible machines is decremented by one
  and every other counter row is unchanged; the machine table is rewritten at the rows
  of the eligible machines, to 1 when the new counter is zero and to 0 otherwise, and
  is unchanged at every other row; and the count with which the observer initialises a
  machine's counter is the number of unscheduled operations that are eligible on it.
\<close>

theorem update_decrements_every_eligible_machine:
  assumes upd: "IsCompletedObserver_update d ob sop = Inr ob'"
    and h: "has_feature (features ob) MACHINES"
  shows "(\<forall>k. IsCompletedObserver_update d ob (sop\<lparr>machine_id := k\<rparr>) = Inr ob')
    \<and> length (remaining_ops_per_machine ob') = length (remaining_ops_per_machine ob)
    \<and> (\<forall>m<length (remaining_ops_per_machine ob).
          if m \<in> set (machines (operation sop))
          then \<exists>v. get0 (remaining_ops_per_machine ob) m = Inr v
                 \<and> get0 (remaining_ops_per_machine ob') m = Inr (v - 1)
          else remaining_ops_per_machine ob' ! m = remaining_ops_per_machine ob ! m)
    \<and> (\<exists>a a'. feature (features ob) MACHINES = Inr a \<and> feature (features ob') MACHINES = Inr a'
          \<and> length a' = length a
          \<and> (\<forall>m<length a.
                if m \<in> set (machines (operation sop))
                then get0 a' m = Inr (of_bool_int (get0 (remaining_ops_per_machine ob') m = Inr 0))
                else a' ! m = a ! m))
    \<and> (\<forall>ob1. count_remaining_operations d ob = Inr ob1 \<longrightarrow>
          (\<forall>m<length (remaining_ops_per_machine ob).
             get0 (remaining_ops_per_machine ob1) m
               = Inr (scan_machine (unscheduled_operations d) m)))"
proof -
  note U = IsCompletedObserver_update_machines[OF upd h]
  let ?ms = "set (machines (operation sop))"
  from U(2) have ok: "\<And>m. m \<in> ?ms \<Longrightarrow> m < length (remaining_ops_per_machine ob)
      \<and> remaining_ops_per_machine ob ! m \<noteq> []"
    by (auto simp: rows_ok_def list_all_iff)
  have 1: "\<forall>k. IsCompletedObserver_update d ob (sop\<lparr>machine_id := k\<rparr>) = Inr ob'"
    using upd by (simp add: IsCompletedObserver_update_machine_id)
  have 2: "length (remaining_ops_per_machine ob') = length (remaining_ops_per_machine ob)"
    using U(1) by (simp add: shifted_def)
  have 3: "if m \<in> ?ms
          then \<exists>v. get0 (remaining_ops_per_machine ob) m = Inr v
                 \<and> get0 (remaining_ops_per_machine ob') m = Inr (v - 1)
          else remaining_ops_per_machine ob' ! m = remaining_ops_per_machine ob ! m"
    if m: "m < length (remaining_ops_per_machine ob)" for m
  proof (cases "m \<in> ?ms")
    case True
    with U(1) m ok[of m] show ?thesis by (simp add: shifted_def get0_def)
  next
    case False
    from U(1) m False have "hd (remaining_ops_per_machine ob' ! m) = hd (remaining_ops_per_machine ob ! m)"
      "tl (remaining_ops_per_machine ob' ! m) = tl (remaining_ops_per_machine ob ! m)"
      "remaining_ops_per_machine ob' ! m = [] \<longleftrightarrow> remaining_ops_per_machine ob ! m = []"
      by (simp_all add: shifted_def)
    then have "remaining_ops_per_machine ob' ! m = remaining_ops_per_machine ob ! m"
      by (cases "remaining_ops_per_machine ob' ! m"; cases "remaining_ops_per_machine ob ! m") auto
    with False show ?thesis by simp
  qed
  from U(3) obtain a a' where a: "feature (features ob) MACHINES = Inr a"
    "feature (features ob') MACHINES = Inr a'" "length a' = length a"
    "rows_ok a (machines (operation sop))"
    "\<forall>m<length a. a' ! m =
                 (if m \<in> ?ms
                  then of_bool_int (hd (remaining_ops_per_machine ob' ! m) = 0) # tl (a ! m)
                  else a ! m)" by blast
  have 4: "if m \<in> ?ms
                then get0 a' m = Inr (of_bool_int (get0 (remaining_ops_per_machine ob') m = Inr 0))
                else a' ! m = a ! m"
    if m: "m < length a" for m
  proof (cases "m \<in> ?ms")
    case True
    from ok[OF True] U(1) have "get0 (remaining_ops_per_machine ob') m
        = Inr (hd (remaining_ops_per_machine ob' ! m))"
      by (simp add: shifted_def get0_def)
    with True a(3,5) m show ?thesis by (simp add: get0_def)
  next
    case False
    with a(5) m show ?thesis by simp
  qed
  have 5: "get0 (remaining_ops_per_machine ob1) m = Inr (scan_machine (unscheduled_operations d) m)"
    if "count_remaining_operations d ob = Inr ob1" and "m < length (remaining_ops_per_machine ob)"
    for ob1 m
    using count_remaining_operations_counts(2,4)[OF that(1)] that(2) h
    by (simp add: get0_def)
  from 1 2 3 4 5 a(1,2,3) show ?thesis by blast
qed

theorem update_decrements_every_eligible_machine_witness:
  "IsCompletedObserver_update flex_after flex_observer
       \<lparr>operation = flex_op0, start_time = 0, machine_id = 0\<rparr>
     = Inr \<lparr>features = [(OPERATIONS, [[0], [0]]), (MACHINES, [[1], [0]]), (JOBS, [[1], [0]])],
            remaining_ops_per_machine = [[0], [1]],
            remaining_ops_per_job = [[0], [1]]\<rparr>
   \<and> has_feature (features flex_observer) MACHINES
   \<and> machines flex_op0 = [0, 1]
   \<and> remaining_ops_per_machine flex_observer = [[1], [2]]
   \<and> IsCompletedObserver_update flex_after flex_observer
       \<lparr>operation = flex_op0, start_time = 0, machine_id = 1\<rparr>
     = Inr \<lparr>features = [(OPERATIONS, [[0], [0]]), (MACHINES, [[1], [0]]), (JOBS, [[1], [0]])],
            remaining_ops_per_machine = [[0], [1]],
            remaining_ops_per_job = [[0], [1]]\<rparr>"
proof -
  have h1: "IsCompletedObserver_update flex_after flex_observer
       \<lparr>operation = flex_op0, start_time = 0, machine_id = 0\<rparr>
     = Inr \<lparr>features = [(OPERATIONS, [[0], [0]]), (MACHINES, [[1], [0]]), (JOBS, [[1], [0]])],
            remaining_ops_per_machine = [[0], [1]],
            remaining_ops_per_job = [[0], [1]]\<rparr>" by code_simp
  have h2: "has_feature (features flex_observer) MACHINES" by code_simp
  have h3: "machines flex_op0 = [0, 1]" "remaining_ops_per_machine flex_observer = [[1], [2]]"
    by code_simp+
  from update_decrements_every_eligible_machine[OF h1 h2]
  have "IsCompletedObserver_update flex_after flex_observer
       (\<lparr>operation = flex_op0, start_time = 0, machine_id = 0\<rparr>\<lparr>machine_id := 1\<rparr>)
     = Inr \<lparr>features = [(OPERATIONS, [[0], [0]]), (MACHINES, [[1], [0]]), (JOBS, [[1], [0]])],
            remaining_ops_per_machine = [[0], [1]],
            remaining_ops_per_job = [[0], [1]]\<rparr>" by blast
  with h1 h2 h3 show ?thesis by simp
qed

section \<open>Copying the counters of a remaining-operations observer\<close>




lemma count_remaining_operations_subscribers [simp]:
  "count_remaining_operations (d\<lparr>subscribers := subs\<rparr>) ob = count_remaining_operations d ob"
proof -
  have "unscheduled_operations (d\<lparr>subscribers := subs\<rparr>) = unscheduled_operations d"
    by (simp add: unscheduled_operations_def)
  then show ?thesis by (simp only: count_remaining_operations_def)
qed






section \<open>The earliest-start-time feature\<close>


























section \<open>Removal of graph nodes\<close>

lemma graph_extends_refl: "graph_extends g g"
  by (simp add: graph_extends_def)

lemma graph_extends_trans: "graph_extends g g1 \<Longrightarrow> graph_extends g1 g2 \<Longrightarrow> graph_extends g g2"
  by (auto simp: graph_extends_def)

lemma get_node_nodes: "nodes g' = nodes g \<Longrightarrow> get_node g' t e = get_node g t e"
  by (simp add: get_node_def nodes_by_type_def)

lemma nodes_by_type_nodes: "nodes g' = nodes g \<Longrightarrow> nodes_by_type g' t = nodes_by_type g t"
  by (simp add: nodes_by_type_def)

lemma get_node_range: "get_node g t e = Inr n \<Longrightarrow> n < length (nodes g)"
proof -
  assume a: "get_node g t e = Inr n"
  then obtain rest where "filter (\<lambda>i. entity_id (nodes g ! i) = e) (nodes_by_type g t) = n # rest"
    by (auto simp: get_node_def split: list.splits)
  then have "n \<in> set (filter (\<lambda>i. entity_id (nodes g ! i) = e) (nodes_by_type g t))"
    by (metis list.set_intros(1))
  then show ?thesis by (auto simp: nodes_by_type_def)
qed

lemma remove_node_extends: "graph_extends g (remove_node g n)"
proof -
  have "(removed_nodes g)[n := True] ! k" if "k < length (removed_nodes g)" "removed_nodes g ! k" for k
    using that by (cases "k = n") simp_all
  then show ?thesis
    by (simp add: graph_extends_def remove_node_def is_removed_def)
qed

lemma remove_node_removed:
  "n < length (removed_nodes g) \<Longrightarrow> is_removed (remove_node g n) n"
  by (simp add: remove_node_def is_removed_def)

lemma wf_graph_extends: "graph_extends g g' \<Longrightarrow> wf_graph g \<Longrightarrow> wf_graph g'"
  by (simp add: graph_extends_def wf_graph_def)

text \<open>The common shape of the three loop bodies, once their condition holds.\<close>

lemma removal_keeps:
  assumes "g1 = (if \<not> is_removed g n then remove_node g n else g)"
  shows "graph_extends g g1" and "redundant_removals g1 = redundant_removals g"
    and "n < length (removed_nodes g) \<Longrightarrow> is_removed g1 n"
proof -
  from assms show "graph_extends g g1"
    by (cases "is_removed g n") (simp_all add: remove_node_extends graph_extends_refl)
  from assms show "redundant_removals g1 = redundant_removals g"
    by (cases "is_removed g n") (simp_all add: remove_node_def)
  from assms show "n < length (removed_nodes g) \<Longrightarrow> is_removed g1 n"
    by (cases "is_removed g n") (simp_all add: remove_node_removed)
qed

lemma guarded_removal:
  assumes "(case lookup of Inl e \<Rightarrow> Inl e
            | Inr n \<Rightarrow> Inr (if \<not> is_removed g n then remove_node g n else g)) = Inr g1"
  obtains n where "lookup = Inr n" and "g1 = (if \<not> is_removed g n then remove_node g n else g)"
proof (cases lookup)
  case (Inl e)
  with assms show ?thesis by simp
next
  case (Inr n)
  with assms have "(if \<not> is_removed g n then remove_node g n else g) = g1"
    by (simp only: sum.case sum.inject)
  then have "g1 = (if \<not> is_removed g n then remove_node g n else g)" by (rule sym)
  with Inr show ?thesis by (rule that)
qed

lemma settled_removal:
  assumes n: "get_node g t e = Inr n"
    and g1: "g1 = (if \<not> is_removed g n then remove_node g n else g)"
    and wf: "wf_graph g" and ext: "graph_extends g1 g2"
  shows "get_node g2 t e = Inr n" and "is_removed g2 n"
proof -
  from get_node_range[OF n] wf have "n < length (removed_nodes g)" by (simp add: wf_graph_def)
  from removal_keeps(3)[OF g1 this] ext show "is_removed g2 n"
    by (simp add: graph_extends_def)
  from removal_keeps(1)[OF g1] ext have "nodes g2 = nodes g"
    by (simp add: graph_extends_def)
  from get_node_nodes[OF this] n show "get_node g2 t e = Inr n" by simp
qed

lemma remove_operation_step_keeps:
  assumes "remove_operation_step op g = Inr g1"
  shows "graph_extends g g1 \<and> redundant_removals g1 = redundant_removals g"
proof -
  from assms[unfolded remove_operation_step_def] obtain n where
    g1: "g1 = (if \<not> is_removed g n then remove_node g n else g)"
    by (rule guarded_removal)
  from removal_keeps(1,2)[OF g1] show ?thesis by simp
qed

lemma remove_operation_step_settled:
  assumes "remove_operation_step op g = Inr g1" and "wf_graph g" and "graph_extends g1 g2"
  shows "remove_operation_step op g2 = Inr g2"
proof -
  from assms(1)[unfolded remove_operation_step_def] obtain n where
    n: "get_operation_node g (operation_id op) = Inr n"
    and g1: "g1 = (if \<not> is_removed g n then remove_node g n else g)"
    by (rule guarded_removal)
  from settled_removal[OF n[unfolded get_operation_node_def] g1 assms(2,3)]
  show ?thesis by (simp add: remove_operation_step_def get_operation_node_def)
qed

lemma remove_machine_step_keeps:
  assumes "remove_machine_step mc g = Inr g1"
  shows "graph_extends g g1 \<and> redundant_removals g1 = redundant_removals g"
proof (cases "snd mc = 1")
  case False
  with assms have "g1 = g" by (simp add: remove_machine_step_def)
  then show ?thesis by (simp add: graph_extends_refl)
next
  case True
  with assms have "(case get_machine_node g (fst mc) of Inl e \<Rightarrow> Inl e
            | Inr n \<Rightarrow> Inr (if \<not> is_removed g n then remove_node g n else g)) = Inr g1"
    by (simp only: remove_machine_step_def refl if_True)
  then obtain n where g1: "g1 = (if \<not> is_removed g n then remove_node g n else g)"
    by (rule guarded_removal)
  from removal_keeps(1,2)[OF g1] show ?thesis by simp
qed

lemma remove_machine_step_settled:
  assumes "remove_machine_step mc g = Inr g1" and "wf_graph g" and "graph_extends g1 g2"
  shows "remove_machine_step mc g2 = Inr g2"
proof (cases "snd mc = 1")
  case False
  then show ?thesis by (simp add: remove_machine_step_def)
next
  case True
  with assms(1) have "(case get_machine_node g (fst mc) of Inl e \<Rightarrow> Inl e
            | Inr n \<Rightarrow> Inr (if \<not> is_removed g n then remove_node g n else g)) = Inr g1"
    by (simp only: remove_machine_step_def refl if_True)
  then obtain n where n: "get_machine_node g (fst mc) = Inr n"
    and g1: "g1 = (if \<not> is_removed g n then remove_node g n else g)"
    by (rule guarded_removal)
  from settled_removal[OF n[unfolded get_machine_node_def] g1 assms(2,3)] True
  show ?thesis by (simp add: remove_machine_step_def get_machine_node_def)
qed

lemma remove_job_step_keeps:
  assumes "remove_job_step jc g = Inr g1"
  shows "graph_extends g g1 \<and> redundant_removals g1 = redundant_removals g"
proof (cases "row_equals_1 (snd jc)")
  case (Inl e)
  with assms show ?thesis by (simp add: remove_job_step_def)
next
  case (Inr c)
  show ?thesis
  proof (cases c)
    case False
    with assms Inr have "g1 = g" by (simp add: remove_job_step_def)
    then show ?thesis by (simp add: graph_extends_refl)
  next
    case True
    with assms Inr have "(case get_job_node g (fst jc) of Inl e \<Rightarrow> Inl e
            | Inr n \<Rightarrow> Inr (if \<not> is_removed g n then remove_node g n else g)) = Inr g1"
      by (simp only: remove_job_step_def sum.case if_True)
    then obtain n where g1: "g1 = (if \<not> is_removed g n then remove_node g n else g)"
      by (rule guarded_removal)
    from removal_keeps(1,2)[OF g1] show ?thesis by simp
  qed
qed

lemma remove_job_step_settled:
  assumes "remove_job_step jc g = Inr g1" and "wf_graph g" and "graph_extends g1 g2"
  shows "remove_job_step jc g2 = Inr g2"
proof (cases "row_equals_1 (snd jc)")
  case (Inl e)
  with assms(1) show ?thesis by (simp add: remove_job_step_def)
next
  case (Inr c)
  show ?thesis
  proof (cases c)
    case False
    with Inr show ?thesis by (simp add: remove_job_step_def)
  next
    case True
    with assms(1) Inr have "(case get_job_node g (fst jc) of Inl e \<Rightarrow> Inl e
            | Inr n \<Rightarrow> Inr (if \<not> is_removed g n then remove_node g n else g)) = Inr g1"
      by (simp only: remove_job_step_def sum.case if_True)
    then obtain n where n: "get_job_node g (fst jc) = Inr n"
      and g1: "g1 = (if \<not> is_removed g n then remove_node g n else g)"
      by (rule guarded_removal)
    from settled_removal[OF n[unfolded get_job_node_def] g1 assms(2,3)] True Inr
    show ?thesis by (simp add: remove_job_step_def get_job_node_def)
  qed
qed

lemma foldE_keeps:
  assumes keeps: "\<And>x g g1. st x g = Inr g1 \<Longrightarrow>
      graph_extends g g1 \<and> redundant_removals g1 = redundant_removals g"
    and "foldE st xs g = Inr g'"
  shows "graph_extends g g' \<and> redundant_removals g' = redundant_removals g"
  using assms(2)
proof (induction xs arbitrary: g)
  case Nil
  then show ?case by (simp add: graph_extends_refl)
next
  case (Cons x xs)
  then obtain g1 where 1: "st x g = Inr g1" and 2: "foldE st xs g1 = Inr g'"
    by (auto split: sum.splits)
  from keeps[OF 1] have a: "graph_extends g g1" "redundant_removals g1 = redundant_removals g"
    by simp_all
  from Cons.IH[OF 2] have b: "graph_extends g1 g'" "redundant_removals g' = redundant_removals g1"
    by simp_all
  from graph_extends_trans[OF a(1) b(1)] a(2) b(2) show ?case by simp
qed

lemma foldE_settled:
  assumes keeps: "\<And>x g g1. st x g = Inr g1 \<Longrightarrow>
      graph_extends g g1 \<and> redundant_removals g1 = redundant_removals g"
    and settled: "\<And>x g g1 g2. st x g = Inr g1 \<Longrightarrow> wf_graph g \<Longrightarrow> graph_extends g1 g2 \<Longrightarrow>
      st x g2 = Inr g2"
    and "foldE st xs g = Inr g'" and "wf_graph g" and "graph_extends g' g2"
  shows "foldE st xs g2 = Inr g2"
  using assms(3,4,5)
proof (induction xs arbitrary: g)
  case Nil
  then show ?case by simp
next
  case (Cons x xs)
  then obtain g1 where 1: "st x g = Inr g1" and 2: "foldE st xs g1 = Inr g'"
    by (auto split: sum.splits)
  from foldE_keeps[OF keeps 2] have "graph_extends g1 g'" by simp
  from graph_extends_trans[OF this Cons.prems(3)] have e: "graph_extends g1 g2" .
  from settled[OF 1 Cons.prems(2) e] have h: "st x g2 = Inr g2" .
  from keeps[OF 1] have "graph_extends g g1" by simp
  from wf_graph_extends[OF this Cons.prems(2)] have "wf_graph g1" .
  from Cons.IH[OF 2 this Cons.prems(3)] h show ?case by simp
qed

lemma machine_loop_is_fold:
  assumes "remove_completed_machine_nodes_loop d u g = Inr g'"
  shows "\<exists>xs. \<forall>h. remove_completed_machine_nodes_loop d u h = foldE remove_machine_step xs h"
proof (cases "is_completed_observer u")
  case (Inl e)
  with assms show ?thesis by (simp add: remove_completed_machine_nodes_loop_def)
next
  case r: (Inr r)
  show ?thesis
  proof (cases "deref d r")
    case (Inl e)
    with assms r show ?thesis by (simp add: remove_completed_machine_nodes_loop_def)
  next
    case ob: (Inr ob)
    show ?thesis
    proof (cases "feature (features ob) MACHINES")
      case (Inl e)
      with assms r ob show ?thesis by (simp add: remove_completed_machine_nodes_loop_def)
    next
      case (Inr a)
      with r ob show ?thesis
        by (intro exI[of _ "enumerate 0 (concat a)"])
           (simp add: remove_completed_machine_nodes_loop_def)
    qed
  qed
qed

lemma job_loop_is_fold:
  assumes "remove_completed_job_nodes_loop d u g = Inr g'"
  shows "\<exists>xs. \<forall>h. remove_completed_job_nodes_loop d u h = foldE remove_job_step xs h"
proof (cases "is_completed_observer u")
  case (Inl e)
  with assms show ?thesis by (simp add: remove_completed_job_nodes_loop_def)
next
  case r: (Inr r)
  show ?thesis
  proof (cases "deref d r")
    case (Inl e)
    with assms r show ?thesis by (simp add: remove_completed_job_nodes_loop_def)
  next
    case ob: (Inr ob)
    show ?thesis
    proof (cases "feature (features ob) JOBS")
      case (Inl e)
      with assms r ob show ?thesis by (simp add: remove_completed_job_nodes_loop_def)
    next
      case (Inr a)
      with r ob show ?thesis
        by (intro exI[of _ "enumerate 0 a"])
           (simp add: remove_completed_job_nodes_loop_def)
    qed
  qed
qed

lemma operations_phase:
  assumes "remove_completed_operations g ops = Inr g1"
  shows "graph_extends g g1 \<and> redundant_removals g1 = redundant_removals g"
    and "wf_graph g \<Longrightarrow> graph_extends g1 g2 \<Longrightarrow> remove_completed_operations g2 ops = Inr g2"
proof -
  from assms have f: "foldE remove_operation_step ops g = Inr g1"
    by (simp add: remove_completed_operations_def)
  show "graph_extends g g1 \<and> redundant_removals g1 = redundant_removals g"
    by (rule foldE_keeps[where st = remove_operation_step, OF remove_operation_step_keeps f])
  show "remove_completed_operations g2 ops = Inr g2" if "wf_graph g" "graph_extends g1 g2"
    unfolding remove_completed_operations_def
    by (rule foldE_settled[where st = remove_operation_step, OF remove_operation_step_keeps remove_operation_step_settled f that])
qed

lemma machines_phase_keeps:
  assumes "(if remove_completed_machine_nodes u \<and> nodes_by_type g MACHINE \<noteq> []
            then remove_completed_machine_nodes_loop d u g else Inr g) = Inr g1"
  shows "graph_extends g g1 \<and> redundant_removals g1 = redundant_removals g"
proof -
  define c where "c \<longleftrightarrow> remove_completed_machine_nodes u \<and> nodes_by_type g MACHINE \<noteq> []"
  from assms have a: "(if c then remove_completed_machine_nodes_loop d u g else Inr g) = Inr g1"
    by (simp only: c_def)
  show ?thesis
  proof (cases c)
    case False
    with a have "g1 = g" by simp
    then show ?thesis by (simp add: graph_extends_refl)
  next
    case True
    with a have l: "remove_completed_machine_nodes_loop d u g = Inr g1" by simp
    from machine_loop_is_fold[OF l] obtain xs where
      xs: "\<forall>h. remove_completed_machine_nodes_loop d u h = foldE remove_machine_step xs h"
      by (rule exE)
    from l xs have f: "foldE remove_machine_step xs g = Inr g1" by simp
    show ?thesis by (rule foldE_keeps[where st = remove_machine_step, OF remove_machine_step_keeps f])
  qed
qed

lemma machines_phase_settled:
  assumes a0: "(if remove_completed_machine_nodes u \<and> nodes_by_type g MACHINE \<noteq> []
            then remove_completed_machine_nodes_loop d u g else Inr g) = Inr g1"
    and wf: "wf_graph g" and ext: "graph_extends g1 g2"
  shows "(if remove_completed_machine_nodes u \<and> nodes_by_type g2 MACHINE \<noteq> []
          then remove_completed_machine_nodes_loop d u g2 else Inr g2) = Inr g2"
proof -
  from machines_phase_keeps[OF a0] have "nodes g1 = nodes g" by (simp add: graph_extends_def)
  with ext have "nodes g2 = nodes g" by (simp add: graph_extends_def)
  from nodes_by_type_nodes[OF this]
  have nb: "nodes_by_type g2 MACHINE = nodes_by_type g MACHINE" .
  define c where "c \<longleftrightarrow> remove_completed_machine_nodes u \<and> nodes_by_type g MACHINE \<noteq> []"
  from a0 have a: "(if c then remove_completed_machine_nodes_loop d u g else Inr g) = Inr g1"
    by (simp only: c_def)
  have goal: "(if c then remove_completed_machine_nodes_loop d u g2 else Inr g2) = Inr g2"
  proof (cases c)
    case False
    then show ?thesis by simp
  next
    case True
    with a have l: "remove_completed_machine_nodes_loop d u g = Inr g1" by simp
    from machine_loop_is_fold[OF l] obtain xs where
      xs: "\<forall>h. remove_completed_machine_nodes_loop d u h = foldE remove_machine_step xs h"
      by (rule exE)
    from l xs have f: "foldE remove_machine_step xs g = Inr g1" by simp
    have "foldE remove_machine_step xs g2 = Inr g2"
      by (rule foldE_settled[where st = remove_machine_step,
            OF remove_machine_step_keeps remove_machine_step_settled f wf ext])
    with xs True show ?thesis by simp
  qed
  then show ?thesis by (simp only: c_def nb)
qed

lemma jobs_phase_keeps:
  assumes "(if remove_completed_job_nodes u \<and> nodes_by_type g JOB \<noteq> []
            then remove_completed_job_nodes_loop d u g else Inr g) = Inr g1"
  shows "graph_extends g g1 \<and> redundant_removals g1 = redundant_removals g"
proof -
  define c where "c \<longleftrightarrow> remove_completed_job_nodes u \<and> nodes_by_type g JOB \<noteq> []"
  from assms have a: "(if c then remove_completed_job_nodes_loop d u g else Inr g) = Inr g1"
    by (simp only: c_def)
  show ?thesis
  proof (cases c)
    case False
    with a have "g1 = g" by simp
    then show ?thesis by (simp add: graph_extends_refl)
  next
    case True
    with a have l: "remove_completed_job_nodes_loop d u g = Inr g1" by simp
    from job_loop_is_fold[OF l] obtain xs where
      xs: "\<forall>h. remove_completed_job_nodes_loop d u h = foldE remove_job_step xs h"
      by (rule exE)
    from l xs have f: "foldE remove_job_step xs g = Inr g1" by simp
    show ?thesis by (rule foldE_keeps[where st = remove_job_step, OF remove_job_step_keeps f])
  qed
qed

lemma jobs_phase_settled:
  assumes a0: "(if remove_completed_job_nodes u \<and> nodes_by_type g JOB \<noteq> []
            then remove_completed_job_nodes_loop d u g else Inr g) = Inr g1"
    and wf: "wf_graph g" and ext: "graph_extends g1 g2"
  shows "(if remove_completed_job_nodes u \<and> nodes_by_type g2 JOB \<noteq> []
          then remove_completed_job_nodes_loop d u g2 else Inr g2) = Inr g2"
proof -
  from jobs_phase_keeps[OF a0] have "nodes g1 = nodes g" by (simp add: graph_extends_def)
  with ext have "nodes g2 = nodes g" by (simp add: graph_extends_def)
  from nodes_by_type_nodes[OF this]
  have nb: "nodes_by_type g2 JOB = nodes_by_type g JOB" .
  define c where "c \<longleftrightarrow> remove_completed_job_nodes u \<and> nodes_by_type g JOB \<noteq> []"
  from a0 have a: "(if c then remove_completed_job_nodes_loop d u g else Inr g) = Inr g1"
    by (simp only: c_def)
  have goal: "(if c then remove_completed_job_nodes_loop d u g2 else Inr g2) = Inr g2"
  proof (cases c)
    case False
    then show ?thesis by simp
  next
    case True
    with a have l: "remove_completed_job_nodes_loop d u g = Inr g1" by simp
    from job_loop_is_fold[OF l] obtain xs where
      xs: "\<forall>h. remove_completed_job_nodes_loop d u h = foldE remove_job_step xs h"
      by (rule exE)
    from l xs have f: "foldE remove_job_step xs g = Inr g1" by simp
    have "foldE remove_job_step xs g2 = Inr g2"
      by (rule foldE_settled[where st = remove_job_step,
            OF remove_job_step_keeps remove_job_step_settled f wf ext])
    with xs True show ?thesis by simp
  qed
  then show ?thesis by (simp only: c_def nb)
qed

lemma update_job_shop_graph_phases:
  assumes "update_job_shop_graph d u g = Inr g'"
  obtains g1 g2 where "remove_completed_operations g (completed_operations d) = Inr g1"
    and "(if remove_completed_machine_nodes u \<and> nodes_by_type g1 MACHINE \<noteq> []
          then remove_completed_machine_nodes_loop d u g1 else Inr g1) = Inr g2"
    and "(if remove_completed_job_nodes u \<and> nodes_by_type g2 JOB \<noteq> []
          then remove_completed_job_nodes_loop d u g2 else Inr g2) = Inr g'"
proof (cases "remove_completed_operations g (completed_operations d)")
  case (Inl e)
  with assms show ?thesis by (simp add: update_job_shop_graph_def)
next
  case g1: (Inr g1)
  show ?thesis
  proof (cases "if remove_completed_machine_nodes u \<and> nodes_by_type g1 MACHINE \<noteq> []
          then remove_completed_machine_nodes_loop d u g1 else Inr g1")
    case (Inl e)
    with assms g1 show ?thesis by (simp only: update_job_shop_graph_def sum.case) simp
  next
    case g2: (Inr g2)
    with assms g1 have "(if remove_completed_job_nodes u \<and> nodes_by_type g2 JOB \<noteq> []
          then remove_completed_job_nodes_loop d u g2 else Inr g2) = Inr g'"
      by (simp only: update_job_shop_graph_def sum.case)
    with g1 g2 show ?thesis by (rule that)
  qed
qed

lemma update_job_shop_graph_keeps:
  assumes "update_job_shop_graph d u g = Inr g'"
  shows "graph_extends g g'" and "redundant_removals g' = redundant_removals g"
proof -
  from assms obtain g1 g2 where
    1: "remove_completed_operations g (completed_operations d) = Inr g1"
    and 2: "(if remove_completed_machine_nodes u \<and> nodes_by_type g1 MACHINE \<noteq> []
          then remove_completed_machine_nodes_loop d u g1 else Inr g1) = Inr g2"
    and 3: "(if remove_completed_job_nodes u \<and> nodes_by_type g2 JOB \<noteq> []
          then remove_completed_job_nodes_loop d u g2 else Inr g2) = Inr g'"
    by (rule update_job_shop_graph_phases)
  note K1 = operations_phase(1)[OF 1]
  note K2 = machines_phase_keeps[OF 2]
  note K3 = jobs_phase_keeps[OF 3]
  from K1 K2 have "graph_extends g g2" by (blast intro: graph_extends_trans)
  with K3 show "graph_extends g g'" by (blast intro: graph_extends_trans)
  from K1 K2 K3 show "redundant_removals g' = redundant_removals g" by simp
qed

lemma update_job_shop_graph_settled:
  assumes upd: "update_job_shop_graph d u g = Inr g'" and wf: "wf_graph g"
  shows "update_job_shop_graph d u g' = Inr g'"
proof -
  from upd obtain g1 g2 where
    1: "remove_completed_operations g (completed_operations d) = Inr g1"
    and 2: "(if remove_completed_machine_nodes u \<and> nodes_by_type g1 MACHINE \<noteq> []
          then remove_completed_machine_nodes_loop d u g1 else Inr g1) = Inr g2"
    and 3: "(if remove_completed_job_nodes u \<and> nodes_by_type g2 JOB \<noteq> []
          then remove_completed_job_nodes_loop d u g2 else Inr g2) = Inr g'"
    by (rule update_job_shop_graph_phases)
  from operations_phase(1)[OF 1] have e1: "graph_extends g g1" by simp
  from machines_phase_keeps[OF 2] have e2: "graph_extends g1 g2" by simp
  from jobs_phase_keeps[OF 3] have e3: "graph_extends g2 g'" by simp
  from wf_graph_extends[OF e1 wf] have wf1: "wf_graph g1" .
  from wf_graph_extends[OF e2 wf1] have wf2: "wf_graph g2" .
  from graph_extends_trans[OF e2 e3] have e13: "graph_extends g1 g'" .
  from operations_phase(2)[OF 1 wf e13]
  have a: "remove_completed_operations g' (completed_operations d) = Inr g'" .
  from machines_phase_settled[OF 2 wf1 e3]
  have b: "(if remove_completed_machine_nodes u \<and> nodes_by_type g' MACHINE \<noteq> []
          then remove_completed_machine_nodes_loop d u g' else Inr g') = Inr g'" .
  from jobs_phase_settled[OF 3 wf2 graph_extends_refl]
  have c: "(if remove_completed_job_nodes u \<and> nodes_by_type g' JOB \<noteq> []
          then remove_completed_job_nodes_loop d u g' else Inr g') = Inr g'" .
  show ?thesis by (simp only: update_job_shop_graph_def a b c sum.case)
qed

lemma update_job_shop_graph_of_graph:
  "update_job_shop_graph d (u\<lparr>job_shop_graph := x\<rparr>) g = update_job_shop_graph d u g"
proof -
  have 1: "is_completed_observer (u\<lparr>job_shop_graph := x\<rparr>) = is_completed_observer u"
    by (simp add: is_completed_observer_def)
  have 2: "remove_completed_machine_nodes_loop d (u\<lparr>job_shop_graph := x\<rparr>)
             = remove_completed_machine_nodes_loop d u"
    by (rule ext) (simp only: remove_completed_machine_nodes_loop_def 1)
  have 3: "remove_completed_job_nodes_loop d (u\<lparr>job_shop_graph := x\<rparr>)
             = remove_completed_job_nodes_loop d u"
    by (rule ext) (simp only: remove_completed_job_nodes_loop_def 1)
  have 4: "remove_completed_machine_nodes (u\<lparr>job_shop_graph := x\<rparr>) = remove_completed_machine_nodes u"
    "remove_completed_job_nodes (u\<lparr>job_shop_graph := x\<rparr>) = remove_completed_job_nodes u"
    by simp_all
  show ?thesis by (simp only: update_job_shop_graph_def 2 3 4)
qed


text \<open>
  C7. Every removal in \<open>ResidualGraphUpdater.update\<close> is guarded by the "is removed"
  query, so when an update returns, \<open>remove_node\<close> was never called on a node that was
  already removed (the ghost counter of such calls is unchanged) and nodes are only
  ever added to the removed ones; and on a graph with one "removed" flag per node, a
  second update on the same state of the dispatcher and of the completion observer
  returns the graph of the first unchanged.
\<close>

theorem residual_update_is_idempotent:
  assumes wf: "wf_graph (job_shop_graph u)"
    and upd: "ResidualGraphUpdater_update d u sop = Inr u'"
  shows "redundant_removals (job_shop_graph u') = redundant_removals (job_shop_graph u)
     \<and> graph_extends (job_shop_graph u) (job_shop_graph u')
     \<and> ResidualGraphUpdater_update d u' sop' = Inr u'"
proof (cases "update_job_shop_graph d u (job_shop_graph u)")
  case (Inl e)
  with upd show ?thesis by (simp add: ResidualGraphUpdater_update_def)
next
  case (Inr g')
  with upd have u': "u' = u\<lparr>job_shop_graph := g'\<rparr>"
    by (simp add: ResidualGraphUpdater_update_def)
  note K = update_job_shop_graph_keeps[OF Inr]
  from update_job_shop_graph_settled[OF Inr wf]
  have "update_job_shop_graph d u' (job_shop_graph u') = Inr g'"
    by (simp add: u' update_job_shop_graph_of_graph)
  then have "ResidualGraphUpdater_update d u' sop' = Inr u'"
    by (simp add: ResidualGraphUpdater_update_def u')
  with K show ?thesis by (simp add: u')
qed

theorem residual_update_is_idempotent_witness:
  "wf_graph (job_shop_graph example_updater)
   \<and> ResidualGraphUpdater_update example_observed_machine0_done example_updater
        \<lparr>operation = op11, start_time = 4, machine_id = 0\<rparr>
      = Inr (example_updater\<lparr>job_shop_graph :=
               example_graph\<lparr>removed_nodes := [True, False, True, False, True, False, False, True],
                              edges := [(1, 5), (1, 6)]\<rparr>\<rparr>)
   \<and> redundant_removals
        (job_shop_graph (example_updater\<lparr>job_shop_graph :=
               example_graph\<lparr>removed_nodes := [True, False, True, False, True, False, False, True],
                              edges := [(1, 5), (1, 6)]\<rparr>\<rparr>)) = 0
   \<and> ResidualGraphUpdater_update example_observed_machine0_done
        (example_updater\<lparr>job_shop_graph :=
               example_graph\<lparr>removed_nodes := [True, False, True, False, True, False, False, True],
                              edges := [(1, 5), (1, 6)]\<rparr>\<rparr>)
        \<lparr>operation = op11, start_time = 4, machine_id = 0\<rparr>
      = Inr (example_updater\<lparr>job_shop_graph :=
               example_graph\<lparr>removed_nodes := [True, False, True, False, True, False, False, True],
                              edges := [(1, 5), (1, 6)]\<rparr>\<rparr>)"
proof -
  have h1: "wf_graph (job_shop_graph example_updater)" by code_simp
  have h2: "ResidualGraphUpdater_update example_observed_machine0_done example_updater
        \<lparr>operation = op11, start_time = 4, machine_id = 0\<rparr>
      = Inr (example_updater\<lparr>job_shop_graph :=
               example_graph\<lparr>removed_nodes := [True, False, True, False, True, False, False, True],
                              edges := [(1, 5), (1, 6)]\<rparr>\<rparr>)" by code_simp
  have h3: "redundant_removals (job_shop_graph example_updater) = 0" by code_simp
  from residual_update_is_idempotent[OF h1 h2,
      of "\<lparr>operation = op11, start_time = 4, machine_id = 0\<rparr>"] h1 h2 h3
  show ?thesis by simp
qed

section \<open>Subscribers in the shape of their constructors\<close>








































section \<open>Validation of a commit\<close>



end
